theory Spec2Isabelle
  imports Complex_Main "HOL-Library.Char_ord" "HOL-Library.List_Lexorder" "HOL-Library.Multiset"
begin

section \<open>JavaScript values used by the grouping engine\<close>

text \<open>
  The record fields the engine groups on hold strings, numbers or nothing
  (a missing key reads as \<open>undefined\<close>). Numbers in records are modelled as
  integers, standing for JavaScript's safe integers, whose decimal text and
  arithmetic are exact, together with \<open>NaN\<close>; record fields holding
  fractions or infinities, and the rounding of IEEE doubles, are outside the
  model. Strings are lists of 8-bit characters compared by character code,
  as JavaScript compares code units.
\<close>

datatype jsval = Undefined | NumNaN | Num int | Str string

text \<open>
  Numbers computed by the aggregates: parsed integers, their sums, and the
  interpolated quantiles, in exact rational arithmetic, and \<open>NaN\<close>.
\<close>

datatype number = Fin rat | NaN

text \<open>
  How a call can end without a value: the only exception the engine lets
  through is the \<open>TypeError\<close> of reading a property of \<open>null\<close> or
  \<open>undefined\<close>.
\<close>

datatype error = TypeError

definition digit_char :: "nat \<Rightarrow> char" where
  "digit_char d = ''0123456789'' ! d"

fun nat_to_dec :: "nat \<Rightarrow> string" where
  "nat_to_dec n =
     (if n < 10 then [digit_char n]
      else nat_to_dec (n div 10) @ [digit_char (n mod 10)])"

declare nat_to_dec.simps [simp del]

fun ToString :: "jsval \<Rightarrow> string" where
  "ToString Undefined = ''undefined''"
| "ToString NumNaN = ''NaN''"
| "ToString (Num n) =
     (if n < 0 then CHR ''-'' # nat_to_dec (nat (- n)) else nat_to_dec (nat n))"
| "ToString (Str s) = s"

definition is_ws :: "char \<Rightarrow> bool" where
  "is_ws c = (c \<in> set [CHR 0x09, CHR 0x0A, CHR 0x0B, CHR 0x0C, CHR 0x0D, CHR 0x20, CHR 0xA0])"

definition is_line_terminator :: "char \<Rightarrow> bool" where
  "is_line_terminator c = (c = CHR 0x0A \<or> c = CHR 0x0D)"

definition digit_val :: "char \<Rightarrow> nat option" where
  "digit_val c =
     (let k = (of_char c :: nat) in
      if 48 \<le> k \<and> k \<le> 57 then Some (k - 48)
      else if 97 \<le> k \<and> k \<le> 102 then Some (k - 87)
      else if 65 \<le> k \<and> k \<le> 70 then Some (k - 55)
      else None)"

definition is_digit_in :: "nat \<Rightarrow> char \<Rightarrow> bool" where
  "is_digit_in R c = (case digit_val c of Some d \<Rightarrow> d < R | None \<Rightarrow> False)"

definition digits_value :: "nat \<Rightarrow> string \<Rightarrow> nat" where
  "digits_value R cs =
     foldl (\<lambda>acc c. case digit_val c of Some d \<Rightarrow> acc * R + d | None \<Rightarrow> acc) 0 cs"

definition strip_sign :: "string \<Rightarrow> string" where
  "strip_sign s =
     (case s of [] \<Rightarrow> [] | c # cs \<Rightarrow> if c = CHR ''+'' \<or> c = CHR ''-'' then cs else s)"

definition is_negative :: "string \<Rightarrow> bool" where
  "is_negative s = (case s of [] \<Rightarrow> False | c # cs \<Rightarrow> c = CHR ''-'')"

text \<open>
  \<open>parseInt(v)\<close> with no radix: the text of \<open>v\<close>, leading white space
  dropped, an optional sign, an optional \<open>0x\<close> prefix switching to radix 16,
  then the longest run of digits; \<open>NaN\<close> when that run is empty.
\<close>

definition parseInt :: "jsval \<Rightarrow> number" where
  "parseInt v =
     (let s = dropWhile is_ws (ToString v);
          s1 = strip_sign s;
          hex = (take 2 s1 = ''0x'' \<or> take 2 s1 = ''0X'');
          R = (if hex then 16 else 10);
          z = takeWhile (is_digit_in R) (if hex then drop 2 s1 else s1)
      in if z = [] then NaN
         else Fin (of_int ((if is_negative s then - 1 else 1) * int (digits_value R z))))"

text \<open>
  The number a string denotes when \<open>==\<close> compares it with a number
  (\<open>StringToNumber\<close> of the language definition): white space and line
  breaks trimmed at both ends; the empty text is 0; \<open>0x\<close>, \<open>0o\<close> and \<open>0b\<close>
  (in either case) introduce an unsigned run of hexadecimal, octal or binary
  digits; otherwise an optional sign is followed by \<open>Infinity\<close> or by a
  decimal literal, that is digits with an optional fraction, or a fraction
  alone, and an optional exponent. Every other text denotes \<open>NaN\<close>. The
  value is the exact rational the text denotes, not its nearest double.
\<close>

datatype textnum = TFin rat | TInfinity bool | TNaN

definition trim :: "string \<Rightarrow> string" where
  "trim s = rev (dropWhile is_ws (rev (dropWhile is_ws s)))"

definition all_digits :: "nat \<Rightarrow> string \<Rightarrow> bool" where
  "all_digits R s = (s \<noteq> [] \<and> list_all (is_digit_in R) s)"

definition pow10 :: "int \<Rightarrow> rat" where
  "pow10 e = (if 0 \<le> e then 10 ^ nat e else 1 / 10 ^ nat (- e))"

definition exponent_part :: "string \<Rightarrow> int option" where
  "exponent_part s =
     (case s of
        [] \<Rightarrow> Some 0
      | c # cs \<Rightarrow>
          if (c = CHR ''e'' \<or> c = CHR ''E'') \<and> all_digits 10 (strip_sign cs)
          then Some ((if is_negative cs then - 1 else 1) * int (digits_value 10 (strip_sign cs)))
          else None)"

definition decimal_literal :: "string \<Rightarrow> rat option" where
  "decimal_literal s =
     (let ip = takeWhile (is_digit_in 10) s;
          r1 = dropWhile (is_digit_in 10) s;
          dot = (r1 \<noteq> [] \<and> hd r1 = CHR ''.'');
          fp = (if dot then takeWhile (is_digit_in 10) (tl r1) else []);
          r2 = (if dot then dropWhile (is_digit_in 10) (tl r1) else r1)
      in if ip = [] \<and> fp = [] then None
         else (case exponent_part r2 of
                 None \<Rightarrow> None
               | Some e \<Rightarrow>
                   Some ((rat_of_nat (digits_value 10 ip)
                            + rat_of_nat (digits_value 10 fp) / 10 ^ length fp) * pow10 e)))"

definition radix_prefix :: "string \<Rightarrow> nat option" where
  "radix_prefix t =
     (if take 2 t = ''0x'' \<or> take 2 t = ''0X'' then Some 16
      else if take 2 t = ''0o'' \<or> take 2 t = ''0O'' then Some 8
      else if take 2 t = ''0b'' \<or> take 2 t = ''0B'' then Some 2
      else None)"

definition StringToNumber :: "string \<Rightarrow> textnum" where
  "StringToNumber s =
     (let t = trim s; body = strip_sign t
      in if t = [] then TFin 0
         else (case radix_prefix t of
                 Some R \<Rightarrow>
                   if all_digits R (drop 2 t) then TFin (rat_of_nat (digits_value R (drop 2 t)))
                   else TNaN
               | None \<Rightarrow>
                   if body = ''Infinity'' then TInfinity (is_negative t)
                   else (case decimal_literal body of
                           None \<Rightarrow> TNaN
                         | Some v \<Rightarrow> TFin (if is_negative t then - v else v))))"

text \<open>
  Strict equality \<open>===\<close> (what \<open>indexOf\<close> uses) and loose equality \<open>==\<close>,
  which compares a number and a string as numbers.
\<close>

fun strict_eq :: "jsval \<Rightarrow> jsval \<Rightarrow> bool" where
  "strict_eq NumNaN y = False"
| "strict_eq x NumNaN = False"
| "strict_eq x y = (x = y)"

fun loose_eq :: "jsval \<Rightarrow> jsval \<Rightarrow> bool" where
  "loose_eq (Num a) (Str s) = (StringToNumber s = TFin (rat_of_int a))"
| "loose_eq (Str s) (Num a) = (StringToNumber s = TFin (rat_of_int a))"
| "loose_eq x y = strict_eq x y"

fun num_add :: "number \<Rightarrow> number \<Rightarrow> number" where
  "num_add (Fin a) (Fin b) = Fin (a + b)"
| "num_add x y = NaN"

fun num_sub :: "number \<Rightarrow> number \<Rightarrow> number" where
  "num_sub (Fin a) (Fin b) = Fin (a - b)"
| "num_sub x y = NaN"

fun num_mul :: "number \<Rightarrow> number \<Rightarrow> number" where
  "num_mul (Fin a) (Fin b) = Fin (a * b)"
| "num_mul x y = NaN"

fun num_less :: "number \<Rightarrow> number \<Rightarrow> bool" where
  "num_less (Fin a) (Fin b) = (a < b)"
| "num_less x y = False"

definition MAX_SAFE_INTEGER :: rat where
  "MAX_SAFE_INTEGER = 9007199254740991"

definition MIN_SAFE_INTEGER :: rat where
  "MIN_SAFE_INTEGER = - 9007199254740991"

section \<open>The quantile helper\<close>

text \<open>
  \<open>Array.prototype.sort\<close> sorts the array object it is called on and returns
  that same object. The arrays of numbers therefore live in a store, from
  addresses to contents, and \<open>Array_Sort_Numbers\<close> returns the updated store
  with the address it was given.

  The sort is given the comparator \<open>a - b\<close>; it moves an element past
  another only when the comparator says it comes after (a positive
  difference), and is stable. On finite numbers this is the ascending
  order, whatever the algorithm. With a \<open>NaN\<close> in the array the
  differences with it are \<open>NaN\<close>, which the sort reads as 0, and the
  language leaves the resulting order to the implementation: the model
  takes that of the stable insertion sort.
\<close>

type_synonym arrays = "nat \<Rightarrow> number list"

definition comes_after :: "number \<Rightarrow> number \<Rightarrow> bool" where
  "comes_after a b = num_less (Fin 0) (num_sub a b)"

fun insert_number :: "number \<Rightarrow> number list \<Rightarrow> number list" where
  "insert_number x [] = [x]"
| "insert_number x (y # ys) =
     (if comes_after x y then y # insert_number x ys else x # y # ys)"

definition sort_numbers :: "number list \<Rightarrow> number list" where
  "sort_numbers xs = foldr insert_number xs []"

definition Array_Sort_Numbers :: "arrays \<Rightarrow> nat \<Rightarrow> arrays \<times> nat" where
  "Array_Sort_Numbers H inputarray = (H(inputarray := sort_numbers (H inputarray)), inputarray)"

text \<open>Reading \<open>data[i]\<close>: \<open>undefined\<close> (here \<open>None\<close>) outside the array.\<close>

definition index :: "number list \<Rightarrow> int \<Rightarrow> number option" where
  "index xs i = (if 0 \<le> i \<and> i < int (length xs) then Some (xs ! nat i) else None)"

text \<open>
  The result is \<open>None\<close> when the code returns \<open>undefined\<close>; arithmetic on
  \<open>undefined\<close> gives \<open>NaN\<close>.
\<close>

definition Quartile :: "arrays \<Rightarrow> nat \<Rightarrow> rat \<Rightarrow> arrays \<times> number option" where
  "Quartile H data0 q =
     (let (H1, data) = Array_Sort_Numbers H data0;
          pos = (rat_of_nat (length (H1 data)) - 1) * q;
          base = \<lfloor>pos\<rfloor>;
          rest = pos - rat_of_int base
      in (H1,
          case index (H1 data) (base + 1) of
            Some hi \<Rightarrow>
              (case index (H1 data) base of
                 Some lo \<Rightarrow> Some (num_add lo (num_mul (Fin rest) (num_sub hi lo)))
               | None \<Rightarrow> Some NaN)
          | None \<Rightarrow> index (H1 data) base))"

definition Quartile_25 :: "arrays \<Rightarrow> nat \<Rightarrow> arrays \<times> number option" where
  "Quartile_25 H data = Quartile H data (1 / 4)"

definition Quartile_50 :: "arrays \<Rightarrow> nat \<Rightarrow> arrays \<times> number option" where
  "Quartile_50 H data = Quartile H data (1 / 2)"

definition Quartile_75 :: "arrays \<Rightarrow> nat \<Rightarrow> arrays \<times> number option" where
  "Quartile_75 H data = Quartile H data (3 / 4)"

definition Median :: "arrays \<Rightarrow> nat \<Rightarrow> arrays \<times> number option" where
  "Median H data = Quartile_50 H data"

text \<open>
  The quantile as the specification words it, on a list of values: sort
  ascending, \<open>pos = (n - 1) * q\<close>, \<open>base = floor pos\<close>, \<open>rest = pos - base\<close>,
  interpolate when index \<open>base + 1\<close> is in range, else take \<open>values[base]\<close>.
\<close>

definition spec_quantile :: "rat list \<Rightarrow> rat \<Rightarrow> rat" where
  "spec_quantile vals q =
     (let vs = sort vals;
          pos = rat_of_nat (length vs - 1) * q;
          base = nat \<lfloor>pos\<rfloor>;
          rest = pos - rat_of_nat base
      in if base + 1 < length vs then vs ! base + rest * (vs ! (base + 1) - vs ! base)
         else vs ! base)"

section \<open>Records, grouping specs and the platform\<close>

text \<open>
  A record is an object read by key; a key it does not have reads as
  \<open>undefined\<close>, and a key that is not a string is converted to one first.
  Records are plain data: the keys every object inherits, such as
  \<open>constructor\<close>, are not modelled.
\<close>

type_synonym jsrecord = "(string \<times> jsval) list"

definition get_prop :: "jsrecord \<Rightarrow> jsval \<Rightarrow> jsval" where
  "get_prop r k = (case map_of r (ToString k) of None \<Rightarrow> Undefined | Some v \<Rightarrow> v)"

text \<open>
  One entry of \<open>group.datasets\<close>: its \<open>data\<close> string such as \<open>sum(revenue)\<close>
  and the \<open>aggField\<close> that \<open>groupBy\<close> attaches to it. One grouping spec:
  \<open>modifier\<close> and \<open>modifierParams\<close> are absent until the parser attaches them.
\<close>

record dataset =
  ds_data :: string
  aggField :: jsval

record group =
  field :: jsval
  datasets :: "dataset list"
  chart :: jsval
  modifier :: "string option"
  modifierParams :: "string list"

text \<open>
  What the code takes from outside itself: the text
  \<open>new Date(v).toISOString()\<close> of a value, \<open>None\<close> when the date is invalid
  and \<open>toISOString\<close> throws, and the instance property \<open>downloadFields\<close>.
\<close>

record host =
  date_iso :: "jsval \<Rightarrow> string option"
  downloadFields :: "string list option"

section \<open>The spec parser\<close>

definition starts_with :: "string \<Rightarrow> string \<Rightarrow> bool" where
  "starts_with p s = (take (length p) s = p)"

text \<open>\<open>/^p/.test(v)\<close>: the value is converted to a string first.\<close>

definition test_prefix :: "string \<Rightarrow> jsval \<Rightarrow> bool" where
  "test_prefix p v = starts_with p (ToString v)"

text \<open>
  The first capture of \<open>/\((.*)\)/\<close>: from the leftmost opening parenthesis
  that has a closing one after it on the same line, the text up to the last
  closing parenthesis of that line. \<open>None\<close> when \<open>match\<close> returns null.
\<close>

fun paren_match :: "string \<Rightarrow> string option" where
  "paren_match [] = None"
| "paren_match (c # cs) =
     (if c = CHR ''(''
      then (let line = takeWhile (\<lambda>x. \<not> is_line_terminator x) cs in
            if CHR '')'' \<in> set line
            then Some (rev (tl (dropWhile (\<lambda>x. x \<noteq> CHR '')'') (rev line))))
            else paren_match cs)
      else paren_match cs)"

fun split_comma :: "string \<Rightarrow> string list" where
  "split_comma [] = [[]]"
| "split_comma (c # cs) =
     (if c = CHR '','' then [] # split_comma cs
      else (case split_comma cs of [] \<Rightarrow> [[c]] | w # ws \<Rightarrow> (c # w) # ws))"

definition parseAggStr :: "string \<Rightarrow> error + string" where
  "parseAggStr str =
     (case paren_match str of None \<Rightarrow> Inl TypeError | Some inner \<Rightarrow> Inr inner)"

definition parseGroupByField :: "group \<Rightarrow> jsval \<Rightarrow> group" where
  "parseGroupByField g str =
     (if test_prefix ''date_trunc'' str
      then (case paren_match (ToString str) of
              None \<Rightarrow> g
            | Some inner \<Rightarrow>
                (let ps = split_comma inner in
                 g\<lparr>modifier := Some ''date_trunc'',
                   modifierParams := ps,
                   field := (if 1 < length ps then Str (ps ! 1) else Undefined)\<rparr>))
      else g)"

section \<open>The modifier applier\<close>

definition applyModifier :: "host \<Rightarrow> jsval \<Rightarrow> group \<Rightarrow> jsval" where
  "applyModifier E val g =
     (case modifier g of
        None \<Rightarrow> val
      | Some m \<Rightarrow>
          if starts_with ''date_trunc'' m
          then (let truncType = (case modifierParams g of [] \<Rightarrow> Undefined | t # ts \<Rightarrow> Str t) in
                if test_prefix ''day'' truncType
                then (case date_iso E val of Some txt \<Rightarrow> Str (take 10 txt) | None \<Rightarrow> val)
                else if test_prefix ''month'' truncType
                then (case date_iso E val of Some txt \<Rightarrow> Str (take 7 txt) | None \<Rightarrow> val)
                else if test_prefix ''year'' truncType
                then (case date_iso E val of Some txt \<Rightarrow> Str (take 4 txt) | None \<Rightarrow> val)
                else val)
          else val)"

text \<open>The expression \<open>applyModifier(data[i][group.field], group)\<close>.\<close>

definition group_value :: "host \<Rightarrow> group \<Rightarrow> jsrecord \<Rightarrow> jsval" where
  "group_value E g r = applyModifier E (get_prop r (field g)) g"

section \<open>The aggregator\<close>

datatype aggval =
  ANum number
| ABoxplot (box_max: number) (box_min: number)
    (box_median: "number option") (box_q1: "number option") (box_q3: "number option")

definition agg_sum :: "host \<Rightarrow> jsrecord list \<Rightarrow> group \<Rightarrow> jsval \<Rightarrow> jsval \<Rightarrow> number" where
  "agg_sum E dat g name aggF =
     foldl (\<lambda>returnNum r.
              if loose_eq (group_value E g r) name
              then num_add (parseInt (get_prop r aggF)) returnNum else returnNum)
       (Fin 0) dat"

definition agg_max :: "host \<Rightarrow> jsrecord list \<Rightarrow> group \<Rightarrow> jsval \<Rightarrow> jsval \<Rightarrow> number" where
  "agg_max E dat g name aggF =
     foldl (\<lambda>returnNum r.
              if loose_eq (group_value E g r) name \<and> num_less returnNum (parseInt (get_prop r aggF))
              then parseInt (get_prop r aggF) else returnNum)
       (Fin MIN_SAFE_INTEGER) dat"

definition agg_min :: "host \<Rightarrow> jsrecord list \<Rightarrow> group \<Rightarrow> jsval \<Rightarrow> jsval \<Rightarrow> number" where
  "agg_min E dat g name aggF =
     foldl (\<lambda>returnNum r.
              if loose_eq (group_value E g r) name \<and> num_less (parseInt (get_prop r aggF)) returnNum
              then parseInt (get_prop r aggF) else returnNum)
       (Fin MAX_SAFE_INTEGER) dat"

definition agg_count :: "host \<Rightarrow> jsrecord list \<Rightarrow> group \<Rightarrow> jsval \<Rightarrow> number" where
  "agg_count E dat g name =
     foldl (\<lambda>returnNum r.
              if loose_eq (group_value E g r) name then num_add returnNum (Fin 1) else returnNum)
       (Fin 0) dat"

text \<open>
  The boxplot loop keeps the running minimum and maximum and pushes the
  parsed value of every matching record onto \<open>arrayOfValues\<close>.
\<close>

definition boxplot_step ::
  "host \<Rightarrow> group \<Rightarrow> jsval \<Rightarrow> jsval \<Rightarrow> number \<times> number \<times> number list \<Rightarrow> jsrecord
     \<Rightarrow> number \<times> number \<times> number list" where
  "boxplot_step E g name aggF st r =
     (case st of (bmin, bmax, arrayOfValues) \<Rightarrow>
        (let m = loose_eq (group_value E g r) name;
             v = parseInt (get_prop r aggF)
         in (if m \<and> num_less v bmin then v else bmin,
             if m \<and> num_less bmax v then v else bmax,
             if m then arrayOfValues @ [v] else arrayOfValues)))"

text \<open>
  The three quartile calls share the one array \<open>arrayOfValues\<close>: the first
  call sorts it, the later ones find it sorted.
\<close>

definition boxplot_quartiles ::
  "number list \<Rightarrow> number option \<times> number option \<times> number option" where
  "boxplot_quartiles vals =
     (let arrayOfValues = (0 :: nat);
          H0 = (\<lambda>a. []) (arrayOfValues := vals);
          (H1, q1) = Quartile_25 H0 arrayOfValues;
          (H2, median) = Quartile_50 H1 arrayOfValues;
          (H3, q3) = Quartile_75 H2 arrayOfValues
      in (q1, median, q3))"

definition agg_boxplot ::
  "host \<Rightarrow> jsrecord list \<Rightarrow> group \<Rightarrow> jsval \<Rightarrow> jsval \<Rightarrow> aggval" where
  "agg_boxplot E dat g name aggF =
     (case foldl (boxplot_step E g name aggF)
             (Fin MAX_SAFE_INTEGER, Fin MIN_SAFE_INTEGER, []) dat of
        (bmin, bmax, arrayOfValues) \<Rightarrow>
          (case boxplot_quartiles arrayOfValues of
             (q1, median, q3) \<Rightarrow> ABoxplot bmax bmin median q1 q3))"

text \<open>
  One turn of the loop over \<open>group.datasets\<close>: the values it pushes onto
  \<open>returnArray\<close> (none for an unknown function, which is only logged).
\<close>

definition agg_dataset ::
  "host \<Rightarrow> jsrecord list \<Rightarrow> group \<Rightarrow> jsval \<Rightarrow> dataset \<Rightarrow> aggval list" where
  "agg_dataset E dat g name d =
     (let str = Str (ds_data d) in
      if test_prefix ''sum'' str then [ANum (agg_sum E dat g name (aggField d))]
      else if test_prefix ''max'' str then [ANum (agg_max E dat g name (aggField d))]
      else if test_prefix ''min'' str then [ANum (agg_min E dat g name (aggField d))]
      else if test_prefix ''count'' str then [ANum (agg_count E dat g name)]
      else if test_prefix ''boxplot'' str then [agg_boxplot E dat g name (aggField d)]
      else [])"

fun agg_loop ::
  "host \<Rightarrow> jsrecord list \<Rightarrow> group \<Rightarrow> jsval \<Rightarrow> dataset list \<Rightarrow> aggval list" where
  "agg_loop E dat g name [] = []"
| "agg_loop E dat g name (d # ds) = agg_dataset E dat g name d @ agg_loop E dat g name ds"

text \<open>\<open>aggFunction\<close> throws nothing: it returns \<open>returnArray\<close>.\<close>

definition aggFunction ::
  "host \<Rightarrow> jsrecord list \<Rightarrow> group \<Rightarrow> jsval \<Rightarrow> aggval list" where
  "aggFunction E dat g name = agg_loop E dat g name (datasets g)"

section \<open>The path builder\<close>

text \<open>
  The loop of \<open>pathAggFunction\<close> over the full spec list, with the path built
  so far. Reading \<open>data[0][...]\<close> of an empty bucket throws.
\<close>

fun path_loop ::
  "host \<Rightarrow> jsrecord list \<Rightarrow> group list \<Rightarrow> group \<Rightarrow> string \<Rightarrow> error + string" where
  "path_loop E dat [] g path = Inr path"
| "path_loop E dat (gi # gs) g path =
     (case dat of
        [] \<Rightarrow> Inl TypeError
      | r0 # rs \<Rightarrow>
          if \<not> loose_eq (field gi) (field g)
          then path_loop E dat gs g (path @ ToString (group_value E gi r0) @ '' > '')
          else Inr (path @ ToString (group_value E gi r0)))"

definition pathAggFunction ::
  "host \<Rightarrow> jsrecord list \<Rightarrow> group list \<Rightarrow> group \<Rightarrow> jsval \<Rightarrow> error + string" where
  "pathAggFunction E dat gs g name = path_loop E dat gs g []"

section \<open>The tree builder\<close>

text \<open>
  The spec objects are shared and changed in place: \<open>groups\<close> and
  \<open>fullGroupBy\<close> are lists of addresses into a store of spec objects, and
  \<open>groupBy\<close> returns the store it leaves behind together with its result,
  also when it throws. The parameters \<open>aggFunc\<close> and \<open>pathAggFunc\<close> are at
  their defaults, \<open>aggFunction\<close> and \<open>pathAggFunction\<close>.
\<close>

type_synonym store = "nat \<Rightarrow> group"

text \<open>
  A collection of records is an array, or a plain object holding records
  under its own keys, in the order the keys were added. The keys of an
  array are its indices, as decimal texts. Reading \<open>length\<close> tells the two
  apart: an array has one, a plain object of records has none
  (\<open>undefined\<close>, here \<open>None\<close>).
\<close>

datatype collection = Array "jsrecord list" | Object "(string \<times> jsrecord) list"

definition index_keys :: "nat \<Rightarrow> string list" where
  "index_keys n = map (\<lambda>i. ToString (Num (int i))) [0..<n]"




text \<open>
  \<open>Object.assign({}, data)\<close> for an array \<open>data\<close>: a fresh plain object
  that has, for every index of the array, the key of that index holding the
  element; the \<open>length\<close> of the array is not copied.
\<close>

definition Object_assign :: "jsrecord list \<Rightarrow> collection" where
  "Object_assign dat = Object (zip (index_keys (length dat)) dat)"

text \<open>
  The value of \<open>drilldown\<close> is the collection the base case returns, or the
  array of nodes of the next level. A node's \<open>data\<close> is the array \<open>f\<close>.
\<close>

datatype tree = Leaf collection | Nodes "node list"
and node =
  Node (node_name: jsval) (node_chart: jsval) (node_y: "aggval list")
    (node_drilldown: tree) (node_group: nat) (node_path: string)
    (node_data: "jsrecord list") (node_groups: "nat list")
    (node_downloadObj: "string list option")

text \<open>
  The loop attaching \<open>aggField\<close> to every dataset of the head spec: it stops
  at the first descriptor \<open>parseAggStr\<close> throws on, with the earlier ones
  already changed.
\<close>

fun parse_datasets :: "dataset list \<Rightarrow> dataset list \<times> error option" where
  "parse_datasets [] = ([], None)"
| "parse_datasets (d # ds) =
     (case parseAggStr (ds_data d) of
        Inl e \<Rightarrow> (d # ds, Some e)
      | Inr a \<Rightarrow>
          (case parse_datasets ds of
             (ds', r) \<Rightarrow> (d\<lparr>aggField := Str a\<rparr> # ds', r)))"

text \<open>
  The head of the branch state on one spec object: the \<open>aggField\<close> loop, then
  \<open>parseGroupByField(group, group.field)\<close>.
\<close>

definition parse_group :: "group \<Rightarrow> group \<times> error option" where
  "parse_group g =
     (case parse_datasets (datasets g) of
        (ds, Some e) \<Rightarrow> (g\<lparr>datasets := ds\<rparr>, Some e)
      | (ds, None) \<Rightarrow> (parseGroupByField (g\<lparr>datasets := ds\<rparr>) (field g), None))"

text \<open>Membership by \<open>indexOf\<close>, which compares with \<open>===\<close>.\<close>

definition IN :: "jsval list \<Rightarrow> jsval \<Rightarrow> bool" where
  "IN list val = list_ex (\<lambda>x. strict_eq x val) list"

definition collect_names :: "host \<Rightarrow> group \<Rightarrow> jsrecord list \<Rightarrow> jsval list" where
  "collect_names E g dat =
     foldl (\<lambda>names r.
              if \<not> IN names (group_value E g r) then names @ [group_value E g r] else names)
       [] dat"

text \<open>
  \<open>names.sort()\<close> with no comparator: \<open>undefined\<close> values go last, the others
  are ordered by comparing their string conversions, and the sort is stable.
\<close>

definition sort_default :: "jsval list \<Rightarrow> jsval list" where
  "sort_default xs =
     sort_key ToString (filter (\<lambda>x. x \<noteq> Undefined) xs) @ filter (\<lambda>x. x = Undefined) xs"

text \<open>
  The loop over the sorted names. \<open>grp\<close> is the address of the head spec \<open>group\<close>,
  read from the current store whenever the code reads it; \<open>rec\<close> is
  the recursive call on the remaining specs. The entries of a node are
  evaluated in the order the object literal lists them.
\<close>

fun bucket_loop ::
  "host \<Rightarrow> (store \<Rightarrow> jsrecord list \<Rightarrow> store \<times> (error + tree)) \<Rightarrow> nat \<Rightarrow> nat list
     \<Rightarrow> jsrecord list \<Rightarrow> jsval list \<Rightarrow> store \<Rightarrow> store \<times> (error + node list)" where
  "bucket_loop E rec grp fullGroupBy dat [] S = (S, Inr [])"
| "bucket_loop E rec grp fullGroupBy dat (name # names) S =
     (let f = filter (\<lambda>r. loose_eq (group_value E (S grp) r) name) dat;
          yv = aggFunction E f (S grp) name
      in case rec S f of
           (S1, Inl e) \<Rightarrow> (S1, Inl e)
         | (S1, Inr dd) \<Rightarrow>
             (case pathAggFunction E f (map S1 fullGroupBy) (S1 grp) name of
                Inl e \<Rightarrow> (S1, Inl e)
              | Inr p \<Rightarrow>
                  (case bucket_loop E rec grp fullGroupBy dat names S1 of
                     (S2, Inl e) \<Rightarrow> (S2, Inl e)
                   | (S2, Inr r) \<Rightarrow>
                       (S2, Inr (Node name (chart (S grp)) yv dd grp p f fullGroupBy
                                   (downloadFields E) # r)))))"

fun groupBy ::
  "host \<Rightarrow> store \<Rightarrow> jsrecord list \<Rightarrow> nat list \<Rightarrow> nat list \<Rightarrow> store \<times> (error + tree)" where
  "groupBy E S dat [] fullGroupBy = (S, Inr (Leaf (Object_assign dat)))"
| "groupBy E S dat (grp # rest) fullGroupBy =
     (case parse_group (S grp) of
        (g', Some e) \<Rightarrow> (S(grp := g'), Inl e)
      | (g', None) \<Rightarrow>
          (let S1 = S(grp := g');
               names = sort_default (collect_names E (S1 grp) dat)
           in case bucket_loop E (\<lambda>S' f. groupBy E S' f rest fullGroupBy)
                     grp fullGroupBy dat names S1 of
                (S2, Inl e) \<Rightarrow> (S2, Inl e)
              | (S2, Inr r) \<Rightarrow> (S2, Inr (Nodes r))))"

section \<open>A sample platform\<close>

text \<open>
  A platform to run the examples on. Its dates are the texts of the form
  \<open>YYYY-MM-DDTHH:mm:ssZ\<close> that name a moment of the calendar; every other
  value is an invalid date to it.
\<close>

definition two_digits :: "string \<Rightarrow> nat" where
  "two_digits s = digits_value 10 (take 2 s)"

definition days_in_month :: "nat \<Rightarrow> nat \<Rightarrow> nat" where
  "days_in_month yr mo =
     (if mo = 2 then (if yr mod 4 = 0 \<and> (yr mod 100 \<noteq> 0 \<or> yr mod 400 = 0) then 29 else 28)
      else if mo \<in> set [4, 6, 9, 11] then 30 else 31)"

definition utc_iso :: "string \<Rightarrow> string option" where
  "utc_iso s =
     (let yr = digits_value 10 (take 4 s);
          mo = two_digits (drop 5 s); dy = two_digits (drop 8 s);
          hh = two_digits (drop 11 s); mi = two_digits (drop 14 s); ss = two_digits (drop 17 s)
      in if length s = 20
            \<and> list_all (is_digit_in 10)
                (take 4 s @ take 2 (drop 5 s) @ take 2 (drop 8 s) @ take 2 (drop 11 s)
                   @ take 2 (drop 14 s) @ take 2 (drop 17 s))
            \<and> [s ! 4, s ! 7, s ! 10, s ! 13, s ! 16, s ! 19] = ''--T::Z''
            \<and> 1 \<le> mo \<and> mo \<le> 12 \<and> 1 \<le> dy \<and> dy \<le> days_in_month yr mo
            \<and> hh \<le> 23 \<and> mi \<le> 59 \<and> ss \<le> 59
         then Some (take 19 s @ ''.000Z'') else None)"

definition sample_host :: host where
  "sample_host =
     \<lparr>date_iso = (\<lambda>v. case v of Str s \<Rightarrow> utc_iso s | _ \<Rightarrow> None), downloadFields = None\<rparr>"

section \<open>Sample inputs and statement vocabulary\<close>


definition sum_spec :: group where
  "sum_spec = \<lparr>field = Str ''g'', datasets = [\<lparr>ds_data = ''sum(v)'', aggField = Undefined\<rparr>],
     chart = Undefined, modifier = None, modifierParams = []\<rparr>"

definition trunc_spec :: group where
  "trunc_spec = parseGroupByField
     \<lparr>field = Str ''date_trunc(month,startdate)'', datasets = [], chart = Undefined,
      modifier = None, modifierParams = []\<rparr> (Str ''date_trunc(month,startdate)'')"

fun fin_val :: "number \<Rightarrow> rat" where
  "fin_val (Fin x) = x"
| "fin_val NaN = 0"

definition matched_values :: "host \<Rightarrow> jsrecord list \<Rightarrow> group \<Rightarrow> jsval \<Rightarrow> jsval \<Rightarrow> rat list" where
  "matched_values E dat g name aggF =
     map fin_val (filter (\<lambda>v. v \<noteq> NaN)
       (map (\<lambda>r. parseInt (get_prop r aggF))
          (filter (\<lambda>r. loose_eq (group_value E g r) name) dat)))"

definition max_spec :: group where
  "max_spec = \<lparr>field = Str ''g'',
     datasets = [\<lparr>ds_data = ''max(v)'', aggField = Str ''v''\<rparr>],
     chart = Undefined, modifier = None, modifierParams = []\<rparr>"

definition min_spec :: group where
  "min_spec = \<lparr>field = Str ''g'',
     datasets = [\<lparr>ds_data = ''min(v)'', aggField = Str ''v''\<rparr>],
     chart = Undefined, modifier = None, modifierParams = []\<rparr>"

definition stats_spec :: group where
  "stats_spec = \<lparr>field = Str ''g'',
     datasets = [\<lparr>ds_data = ''sum(v)'', aggField = Str ''v''\<rparr>,
                 \<lparr>ds_data = ''max(v)'', aggField = Str ''v''\<rparr>,
                 \<lparr>ds_data = ''min(v)'', aggField = Str ''v''\<rparr>],
     chart = Undefined, modifier = None, modifierParams = []\<rparr>"

definition sample_data :: "jsrecord list" where
  "sample_data =
     [[(''g'', Str ''A''), (''v'', Str ''10'')],
      [(''g'', Str ''A''), (''v'', Str ''5'')],
      [(''g'', Str ''B''), (''v'', Str ''3'')]]"

definition plain_spec :: group where
  "plain_spec = \<lparr>field = Str ''g'', datasets = [\<lparr>ds_data = ''count()'', aggField = Undefined\<rparr>],
     chart = Undefined, modifier = None, modifierParams = []\<rparr>"

definition mixed_data :: "jsrecord list" where
  "mixed_data = [[(''g'', Num 1)], [(''g'', Str ''1'')]]"

definition nine_ten :: "jsrecord list" where
  "nine_ten = [[(''g'', Num 9)], [(''g'', Num 10)]]"

definition letters :: "jsrecord list" where
  "letters = [[(''g'', Str ''b'')], [(''g'', Str ''a'')], [(''g'', Str ''a'')], [(''g'', Str ''c'')]]"


text \<open>The order the specification words: numeric for numbers, lexicographic for strings.\<close>

fun spec_value_le :: "jsval \<Rightarrow> jsval \<Rightarrow> bool" where
  "spec_value_le (Num a) (Num b) = (a \<le> b)"
| "spec_value_le (Str a) (Str b) = (a \<le> b)"
| "spec_value_le x y = True"

text \<open>The order of the default sort: \<open>undefined\<close> last, else by string conversion.\<close>

definition default_le :: "jsval \<Rightarrow> jsval \<Rightarrow> bool" where
  "default_le x y = (y = Undefined \<or> (x \<noteq> Undefined \<and> ToString x \<le> ToString y))"



text \<open>The nodes of a result; none when the call threw or returned a leaf.\<close>

fun result_nodes :: "error + tree \<Rightarrow> node list" where
  "result_nodes (Inr (Nodes ns)) = ns"
| "result_nodes r = []"

section \<open>Re-running on the same spec objects: vocabulary\<close>

text \<open>
  A spec whose field would be rewritten again by the parser, and a spec
  that is settled after one parse.
\<close>

definition reparses :: "group \<Rightarrow> bool" where
  "reparses g =
     (test_prefix ''date_trunc'' (field g) \<and> paren_match (ToString (field g)) \<noteq> None)"

definition stable_spec :: "group \<Rightarrow> bool" where
  "stable_spec g = (\<not> reparses (parseGroupByField g (field g)))"

text \<open>
  \<open>T\<close> is \<open>S\<close> with some of the specs at the addresses \<open>A\<close> already parsed.
\<close>

definition more_parsed :: "nat set \<Rightarrow> store \<Rightarrow> store \<Rightarrow> bool" where
  "more_parsed A S T = (\<forall>r. T r = S r \<or> (r \<in> A \<and> T r = fst (parse_group (S r))))"

definition stable_on :: "nat set \<Rightarrow> store \<Rightarrow> bool" where
  "stable_on A S = (\<forall>r\<in>A. stable_spec (S r))"

definition nested_spec :: group where
  "nested_spec = \<lparr>field = Str ''date_trunc(month,date_trunc(x))'', datasets = [],
     chart = Undefined, modifier = None, modifierParams = []\<rparr>"

definition nested_data :: "jsrecord list" where
  "nested_data = [[(''date_trunc(x)'', Str ''a'')]]"

definition month_spec :: group where
  "month_spec = \<lparr>field = Str ''date_trunc(month,startdate)'',
     datasets = [\<lparr>ds_data = ''sum(v)'', aggField = Undefined\<rparr>],
     chart = Undefined, modifier = None, modifierParams = []\<rparr>"

definition two_specs :: store where
  "two_specs = (\<lambda>a. sum_spec)(1 := month_spec)"

definition dated_data :: "jsrecord list" where
  "dated_data =
     [[(''g'', Str ''A''), (''v'', Str ''10''), (''startdate'', Str ''2018-03-15T00:00:00Z'')],
      [(''g'', Str ''A''), (''v'', Str ''5''), (''startdate'', Str ''2018-04-02T00:00:00Z'')],
      [(''g'', Str ''B''), (''v'', Str ''3''), (''startdate'', Str ''2018-03-01T00:00:00Z'')]]"

text \<open>
  Two runs agree: same result, the second store at least as parsed as the
  first, and equal stores when the run went through under \<open>c\<close>.
\<close>

definition sim_result ::
  "nat set \<Rightarrow> bool \<Rightarrow> store \<times> (error + 'a) \<Rightarrow> store \<times> (error + 'a) \<Rightarrow> bool" where
  "sim_result A c rs rt =
     (snd rt = snd rs \<and> more_parsed A (fst rs) (fst rt) \<and>
      (c \<and> \<not> isl (snd rs) \<longrightarrow> fst rt = fst rs))"

section \<open>The quantile helper: results\<close>

text \<open>
  On finite numbers the comparator \<open>a - b\<close> is consistent and the sort is
  the ascending one; on every array it permutes the contents.
\<close>

lemma insert_number_finite:
  "insert_number (Fin x) (map Fin ys) = map Fin (insort x ys)"
  by (induction ys) (auto simp add: comes_after_def)

lemma sort_numbers_finite: "sort_numbers (map Fin vals) = map Fin (sort vals)"
  by (induction vals) (simp_all add: sort_numbers_def sort_key_def insert_number_finite)



lemma index_finite:
  "index (map Fin vs) i = (if 0 \<le> i \<and> i < int (length vs) then Some (Fin (vs ! nat i)) else None)"
  by (auto simp add: index_def)

text \<open>
  Claim C6. For a non-empty array of finite numbers (the array \<open>map Fin vals\<close>
  at address \<open>a\<close>) and \<open>q\<close> between 0 and 1, \<open>Quartile\<close> returns the
  linear-interpolation quantile the specification describes: the value
  computed by \<open>spec_quantile\<close> on the array's contents.
\<close>

theorem C6_quantile:
  assumes ne: "vals \<noteq> []" and q0: "0 \<le> q" and q1: "q \<le> 1"
  shows "snd (Quartile (H(a := map Fin vals)) a q) = Some (Fin (spec_quantile vals q))"
proof -
  define vs where "vs = sort vals"
  define n where "n = length vs"
  have npos: "0 < n" using ne by (simp add: n_def vs_def)
  define pos where "pos = rat_of_nat (n - 1) * q"
  have pos_alt: "(rat_of_nat n - 1) * q = pos"
    using npos by (simp add: pos_def of_nat_diff)
  have pos0: "0 \<le> pos" using q0 by (simp add: pos_def)
  have posle: "pos \<le> rat_of_nat (n - 1)"
    using q1 by (simp add: pos_def mult_left_le)
  define b where "b = \<lfloor>pos\<rfloor>"
  have b0: "0 \<le> b" using pos0 by (simp add: b_def)
  have bn: "b \<le> int (n - 1)"
  proof -
    have "\<lfloor>pos\<rfloor> \<le> \<lfloor>rat_of_nat (n - 1)\<rfloor>" using posle by (rule floor_mono)
    then show ?thesis by (simp add: b_def)
  qed
  have blt: "b < int n" using bn npos by linarith
  have natb: "rat_of_nat (nat b) = rat_of_int b" using b0 by simp
  have srt: "sort_numbers (map Fin vals) = map Fin vs"
    by (simp add: sort_numbers_finite vs_def)
  have pos_alt': "(rat_of_nat (length vs) - 1) * q = pos"
    using pos_alt by (simp add: n_def)
  have fl: "\<lfloor>pos\<rfloor> = b" by (simp add: b_def)
  have rhs: "spec_quantile vals q =
      (if nat b + 1 < n then vs ! nat b + (pos - rat_of_int b) * (vs ! (nat b + 1) - vs ! nat b) else vs ! nat b)"
    by (simp only: spec_quantile_def Let_def vs_def [symmetric] n_def [symmetric]
        pos_def [symmetric] fl natb)
  have ib: "index (map Fin vs) b = Some (Fin (vs ! nat b))"
    using b0 blt by (simp add: index_finite n_def)
  show ?thesis
  proof (cases "nat b + 1 < n")
    case True
    then have "index (map Fin vs) (b + 1) = Some (Fin (vs ! (nat b + 1)))"
      using b0 by (simp add: index_finite n_def nat_add_distrib)
    then show ?thesis using True ib
      by (simp add: rhs Quartile_def Array_Sort_Numbers_def Let_def srt pos_alt' fl)
  next
    case False
    then have "index (map Fin vs) (b + 1) = None"
      using b0 by (simp add: index_finite n_def)
    then show ?thesis using False ib
      by (simp add: rhs Quartile_def Array_Sort_Numbers_def Let_def srt pos_alt' fl)
  qed
qed

text \<open>
  The theorem at the specification's examples: the median of 1, 2, 3, 4 is
  2.5 and the first quartile is 1.75.
\<close>

theorem C6_quantile_witness:
  "snd (Quartile ((\<lambda>_. [])(0 := [Fin 1, Fin 2, Fin 3, Fin 4])) 0 (1 / 2)) = Some (Fin (5 / 2)) \<and>
   snd (Quartile ((\<lambda>_. [])(0 := [Fin 1, Fin 2, Fin 3, Fin 4])) 0 (1 / 4)) = Some (Fin (7 / 4))"
proof -
  let ?H = "(\<lambda>_. []) :: arrays"
  have s1: "spec_quantile [1, 2, 3, 4] (1 / 2) = 5 / 2"
    by code_simp
  have s2: "spec_quantile [1, 2, 3, 4] (1 / 4) = 7 / 4"
    by code_simp
  show ?thesis
    using C6_quantile [of "[1, 2, 3, 4]" "1 / 2" ?H 0]
      C6_quantile [of "[1, 2, 3, 4]" "1 / 4" ?H 0] s1 s2 by simp
qed


section \<open>The spec parser: results\<close>













section \<open>The modifier applier and the aggregator: results\<close>

lemma starts_withD: "starts_with p s \<Longrightarrow> \<exists>t. s = p @ t"
  unfolding starts_with_def by (metis append_take_drop_id)

lemma prefix_month_not_day: "starts_with ''month'' u \<Longrightarrow> \<not> starts_with ''day'' u"
proof
  assume a: "starts_with ''month'' u" and b: "starts_with ''day'' u"
  from a obtain t where "u = ''month'' @ t" by (blast dest: starts_withD)
  with b show False by (simp add: starts_with_def)
qed

lemma prefix_year_not_day: "starts_with ''year'' u \<Longrightarrow> \<not> starts_with ''day'' u"
proof
  assume a: "starts_with ''year'' u" and b: "starts_with ''day'' u"
  from a obtain t where "u = ''year'' @ t" by (blast dest: starts_withD)
  with b show False by (simp add: starts_with_def)
qed

lemma prefix_year_not_month: "starts_with ''year'' u \<Longrightarrow> \<not> starts_with ''month'' u"
proof
  assume a: "starts_with ''year'' u" and b: "starts_with ''month'' u"
  from a obtain t where "u = ''year'' @ t" by (blast dest: starts_withD)
  with b show False by (simp add: starts_with_def)
qed

text \<open>
  Claim C5. For a spec with the \<open>date_trunc\<close> modifier and unit \<open>u\<close>:
  when the platform reads the value as a date with ISO text \<open>txt\<close>, the
  result is the first 10, 7 or 4 characters of \<open>txt\<close> for a unit starting with
  \<open>day\<close>, \<open>month\<close> or \<open>year\<close>; when the date is invalid the value comes back
  unchanged. \<open>applyModifier\<close> returns a value in every case: nothing is thrown
  past it.
\<close>

theorem C5_date_trunc:
  assumes "modifier g = Some m" and "starts_with ''date_trunc'' m"
    and "modifierParams g = u # ps"
  shows "(date_iso E v = None \<longrightarrow> applyModifier E v g = v) \<and>
    (\<forall>txt. date_iso E v = Some txt \<longrightarrow>
       (starts_with ''day'' u \<longrightarrow> applyModifier E v g = Str (take 10 txt)) \<and>
       (starts_with ''month'' u \<longrightarrow> applyModifier E v g = Str (take 7 txt)) \<and>
       (starts_with ''year'' u \<longrightarrow> applyModifier E v g = Str (take 4 txt)))"
  using assms prefix_month_not_day [of u] prefix_year_not_day [of u] prefix_year_not_month [of u]
  by (auto simp: applyModifier_def test_prefix_def Let_def)

text \<open>
  The theorem at the spec parsed from \<open>date_trunc(month,startdate)\<close>, on a
  date and on a text that is no date.
\<close>

theorem C5_date_trunc_witness:
  "applyModifier sample_host (Str ''2018-03-15T00:00:00Z'') trunc_spec = Str ''2018-03'' \<and>
   applyModifier sample_host (Str ''not-a-date'') trunc_spec = Str ''not-a-date''"
proof -
  have g: "trunc_spec = \<lparr>field = Str ''startdate'', datasets = [], chart = Undefined,
      modifier = Some ''date_trunc'', modifierParams = [''month'', ''startdate'']\<rparr>"
    by (simp add: trunc_spec_def parseGroupByField_def test_prefix_def starts_with_def
        is_line_terminator_def Let_def)
  have m: "modifier trunc_spec = Some ''date_trunc''" by (simp add: g)
  have p: "starts_with ''date_trunc'' ''date_trunc''" by (simp add: starts_with_def)
  have u: "modifierParams trunc_spec = ''month'' # [''startdate'']" by (simp add: g)
  have mo: "starts_with ''month'' ''month''" by (simp add: starts_with_def)
  have d1: "date_iso sample_host (Str ''2018-03-15T00:00:00Z'') = Some ''2018-03-15T00:00:00.000Z''"
    by (simp add: sample_host_def) code_simp
  have d2: "date_iso sample_host (Str ''not-a-date'') = None"
    by (simp add: sample_host_def utc_iso_def)
  show ?thesis
    using C5_date_trunc [OF m p u, of sample_host "Str ''2018-03-15T00:00:00Z''"]
      C5_date_trunc [OF m p u, of sample_host "Str ''not-a-date''"] mo d1 d2
    by simp
qed

lemma agg_max_fold:
  "foldl (\<lambda>returnNum r.
            if loose_eq (group_value E g r) name \<and> num_less returnNum (parseInt (get_prop r aggF))
            then parseInt (get_prop r aggF) else returnNum) (Fin a) dat
   = Fin (fold max (matched_values E dat g name aggF) a)"
proof (induction dat arbitrary: a)
  case Nil
  then show ?case by (simp add: matched_values_def)
next
  case (Cons r rs)
  show ?case
  proof (cases "parseInt (get_prop r aggF)")
    case (Fin v)
    then show ?thesis
      using Cons.IH [of a] Cons.IH [of v] by (auto simp: matched_values_def max_def)
  next
    case NaN
    then show ?thesis using Cons.IH [of a] by (simp add: matched_values_def)
  qed
qed

lemma agg_min_fold:
  "foldl (\<lambda>returnNum r.
            if loose_eq (group_value E g r) name \<and> num_less (parseInt (get_prop r aggF)) returnNum
            then parseInt (get_prop r aggF) else returnNum) (Fin a) dat
   = Fin (fold min (matched_values E dat g name aggF) a)"
proof (induction dat arbitrary: a)
  case Nil
  then show ?case by (simp add: matched_values_def)
next
  case (Cons r rs)
  show ?case
  proof (cases "parseInt (get_prop r aggF)")
    case (Fin v)
    then show ?thesis
      using Cons.IH [of a] Cons.IH [of v] by (auto simp: matched_values_def min_def)
  next
    case NaN
    then show ?thesis using Cons.IH [of a] by (simp add: matched_values_def)
  qed
qed

lemma agg_max_closed:
  "agg_max E dat g name aggF = Fin (Max (set (MIN_SAFE_INTEGER # matched_values E dat g name aggF)))"
  by (simp only: agg_max_def agg_max_fold Max.set_eq_fold)

lemma agg_min_closed:
  "agg_min E dat g name aggF = Fin (Min (set (MAX_SAFE_INTEGER # matched_values E dat g name aggF)))"
  by (simp only: agg_min_def agg_min_fold Min.set_eq_fold)

lemma matched_values_empty:
  "\<forall>r\<in>set dat. \<not> loose_eq (group_value E g r) name \<Longrightarrow> matched_values E dat g name aggF = []"
  by (simp add: matched_values_def filter_empty_conv [THEN iffD2])

lemma prefix_max_not_sum: "test_prefix ''max'' (Str s) \<Longrightarrow> \<not> test_prefix ''sum'' (Str s)"
  by (auto simp: test_prefix_def starts_with_def)

lemma prefix_min_not_sum_max:
  "test_prefix ''min'' (Str s) \<Longrightarrow> \<not> test_prefix ''sum'' (Str s) \<and> \<not> test_prefix ''max'' (Str s)"
  by (auto simp: test_prefix_def starts_with_def)

lemma agg_dataset_max:
  "test_prefix ''max'' (Str (ds_data d)) \<Longrightarrow>
   agg_dataset E dat g name d =
     [ANum (Fin (Max (set (MIN_SAFE_INTEGER # matched_values E dat g name (aggField d)))))]"
  using prefix_max_not_sum [of "ds_data d"] by (simp add: agg_dataset_def agg_max_closed)

lemma agg_dataset_min:
  "test_prefix ''min'' (Str (ds_data d)) \<Longrightarrow>
   agg_dataset E dat g name d =
     [ANum (Fin (Min (set (MAX_SAFE_INTEGER # matched_values E dat g name (aggField d)))))]"
  using prefix_min_not_sum_max [of "ds_data d"] by (simp add: agg_dataset_def agg_min_closed)

text \<open>
  The aggregates read the spec for its field and modifier only, so the
  values of the series before and after a given one are those
  \<open>aggFunction\<close> returns on the spec cut down to these series.
\<close>

lemma group_value_datasets: "group_value E (g\<lparr>datasets := ds\<rparr>) r = group_value E g r"
  by (simp add: group_value_def applyModifier_def split: option.split)

lemma boxplot_step_datasets:
  "boxplot_step E (g\<lparr>datasets := ds\<rparr>) name aggF = boxplot_step E g name aggF"
  by (intro ext) (simp add: boxplot_step_def group_value_datasets)

lemma agg_dataset_datasets:
  "agg_dataset E dat (g\<lparr>datasets := ds\<rparr>) name d = agg_dataset E dat g name d"
  by (simp add: agg_dataset_def agg_sum_def agg_max_def agg_min_def agg_count_def
      agg_boxplot_def boxplot_step_datasets group_value_datasets Let_def)

lemma agg_loop_datasets:
  "agg_loop E dat (g\<lparr>datasets := ds'\<rparr>) name ds = agg_loop E dat g name ds"
  by (induction ds) (simp_all add: agg_dataset_datasets)

lemma agg_loop_append:
  "agg_loop E dat g name (ds1 @ ds2) = agg_loop E dat g name ds1 @ agg_loop E dat g name ds2"
  by (induction ds1) simp_all

lemma aggFunction_series:
  "datasets g = ds1 @ d # ds2 \<Longrightarrow>
   aggFunction E dat g name =
     aggFunction E dat (g\<lparr>datasets := ds1\<rparr>) name @ agg_dataset E dat g name d
       @ aggFunction E dat (g\<lparr>datasets := ds2\<rparr>) name"
  by (simp add: aggFunction_def agg_loop_append agg_loop_datasets)

text \<open>
  Claim C8. In the array \<open>aggFunction\<close> returns for a bucket, a \<open>max\<close>
  series of the spec, whatever series come before and after it, contributes
  at its place the greatest of \<open>MIN_SAFE_INTEGER\<close> and the finite
  \<open>parseInt\<close> values of the matching records of the bucket, and a \<open>min\<close>
  series the least of \<open>MAX_SAFE_INTEGER\<close> and those values: the running
  maximum and minimum started at the sentinels. When no record matches the
  group value, the value is the sentinel itself; \<open>aggFunction\<close> returns its
  array in every case and throws nothing.
\<close>

theorem C8_max_min_sentinels:
  assumes "datasets g = ds1 @ d # ds2"
  shows
  "(test_prefix ''max'' (Str (ds_data d)) \<longrightarrow>
      aggFunction E dat g name =
        aggFunction E dat (g\<lparr>datasets := ds1\<rparr>) name
          @ ANum (Fin (Max (set (MIN_SAFE_INTEGER # matched_values E dat g name (aggField d)))))
          # aggFunction E dat (g\<lparr>datasets := ds2\<rparr>) name) \<and>
   (test_prefix ''min'' (Str (ds_data d)) \<longrightarrow>
      aggFunction E dat g name =
        aggFunction E dat (g\<lparr>datasets := ds1\<rparr>) name
          @ ANum (Fin (Min (set (MAX_SAFE_INTEGER # matched_values E dat g name (aggField d)))))
          # aggFunction E dat (g\<lparr>datasets := ds2\<rparr>) name) \<and>
   ((\<forall>r\<in>set dat. \<not> loose_eq (group_value E g r) name) \<longrightarrow>
      (test_prefix ''max'' (Str (ds_data d)) \<longrightarrow>
         aggFunction E dat g name =
           aggFunction E dat (g\<lparr>datasets := ds1\<rparr>) name
             @ ANum (Fin MIN_SAFE_INTEGER) # aggFunction E dat (g\<lparr>datasets := ds2\<rparr>) name) \<and>
      (test_prefix ''min'' (Str (ds_data d)) \<longrightarrow>
         aggFunction E dat g name =
           aggFunction E dat (g\<lparr>datasets := ds1\<rparr>) name
             @ ANum (Fin MAX_SAFE_INTEGER) # aggFunction E dat (g\<lparr>datasets := ds2\<rparr>) name))"
proof -
  note split = aggFunction_series [OF assms, of E dat name]
  have mx: "test_prefix ''max'' (Str (ds_data d)) \<Longrightarrow>
      aggFunction E dat g name =
        aggFunction E dat (g\<lparr>datasets := ds1\<rparr>) name
          @ ANum (Fin (Max (set (MIN_SAFE_INTEGER # matched_values E dat g name (aggField d)))))
          # aggFunction E dat (g\<lparr>datasets := ds2\<rparr>) name"
    by (simp only: split agg_dataset_max append_Cons append_Nil)
  have mn: "test_prefix ''min'' (Str (ds_data d)) \<Longrightarrow>
      aggFunction E dat g name =
        aggFunction E dat (g\<lparr>datasets := ds1\<rparr>) name
          @ ANum (Fin (Min (set (MAX_SAFE_INTEGER # matched_values E dat g name (aggField d)))))
          # aggFunction E dat (g\<lparr>datasets := ds2\<rparr>) name"
    by (simp only: split agg_dataset_min append_Cons append_Nil)
  have e: "\<forall>r\<in>set dat. \<not> loose_eq (group_value E g r) name \<Longrightarrow>
      matched_values E dat g name (aggField d) = []"
    by (rule matched_values_empty)
  show ?thesis
  proof (intro conjI impI)
    assume "test_prefix ''max'' (Str (ds_data d))"
    then show "aggFunction E dat g name =
        aggFunction E dat (g\<lparr>datasets := ds1\<rparr>) name
          @ ANum (Fin (Max (set (MIN_SAFE_INTEGER # matched_values E dat g name (aggField d)))))
          # aggFunction E dat (g\<lparr>datasets := ds2\<rparr>) name"
      by (rule mx)
  next
    assume "test_prefix ''min'' (Str (ds_data d))"
    then show "aggFunction E dat g name =
        aggFunction E dat (g\<lparr>datasets := ds1\<rparr>) name
          @ ANum (Fin (Min (set (MAX_SAFE_INTEGER # matched_values E dat g name (aggField d)))))
          # aggFunction E dat (g\<lparr>datasets := ds2\<rparr>) name"
      by (rule mn)
  next
    assume "\<forall>r\<in>set dat. \<not> loose_eq (group_value E g r) name"
      and "test_prefix ''max'' (Str (ds_data d))"
    then show "aggFunction E dat g name =
        aggFunction E dat (g\<lparr>datasets := ds1\<rparr>) name
          @ ANum (Fin MIN_SAFE_INTEGER) # aggFunction E dat (g\<lparr>datasets := ds2\<rparr>) name"
      using mx e by simp
  next
    assume "\<forall>r\<in>set dat. \<not> loose_eq (group_value E g r) name"
      and "test_prefix ''min'' (Str (ds_data d))"
    then show "aggFunction E dat g name =
        aggFunction E dat (g\<lparr>datasets := ds1\<rparr>) name
          @ ANum (Fin MAX_SAFE_INTEGER) # aggFunction E dat (g\<lparr>datasets := ds2\<rparr>) name"
      using mn e by simp
  qed
qed

text \<open>
  The theorem on the sample records, for a spec with the three series
  \<open>sum(v)\<close>, \<open>max(v)\<close>, \<open>min(v)\<close> and for the specs with \<open>max(v)\<close> or
  \<open>min(v)\<close> alone: the bucket \<open>A\<close> holds 10 and 5, and no record has the
  group value \<open>C\<close>.
\<close>

theorem C8_max_min_sentinels_witness:
  "aggFunction sample_host sample_data stats_spec (Str ''A'') =
     [ANum (Fin 15), ANum (Fin 10), ANum (Fin 5)] \<and>
   aggFunction sample_host sample_data stats_spec (Str ''C'') =
     [ANum (Fin 0), ANum (Fin MIN_SAFE_INTEGER), ANum (Fin MAX_SAFE_INTEGER)] \<and>
   aggFunction sample_host sample_data max_spec (Str ''A'') = [ANum (Fin 10)] \<and>
   aggFunction sample_host sample_data min_spec (Str ''A'') = [ANum (Fin 5)] \<and>
   aggFunction sample_host sample_data max_spec (Str ''C'') = [ANum (Fin MIN_SAFE_INTEGER)] \<and>
   aggFunction sample_host sample_data min_spec (Str ''C'') = [ANum (Fin MAX_SAFE_INTEGER)]"
proof -
  let ?dsum = "\<lparr>ds_data = ''sum(v)'', aggField = Str ''v''\<rparr>"
  let ?dmax = "\<lparr>ds_data = ''max(v)'', aggField = Str ''v''\<rparr>"
  let ?dmin = "\<lparr>ds_data = ''min(v)'', aggField = Str ''v''\<rparr>"
  have pmax: "test_prefix ''max'' (Str (ds_data ?dmax))"
    by (simp add: test_prefix_def starts_with_def)
  have pmin: "test_prefix ''min'' (Str (ds_data ?dmin))"
    by (simp add: test_prefix_def starts_with_def)
  have ds: "datasets stats_spec = [?dsum] @ ?dmax # [?dmin]"
    by (simp add: stats_spec_def)
  have dmax: "datasets max_spec = [] @ ?dmax # []" by (simp add: max_spec_def)
  have dmin: "datasets min_spec = [] @ ?dmin # []" by (simp add: min_spec_def)
  have estats: "\<forall>r\<in>set sample_data. \<not> loose_eq (group_value sample_host stats_spec r) (Str ''C'')"
    by (simp add: sample_data_def stats_spec_def group_value_def applyModifier_def get_prop_def)
  have emax: "\<forall>r\<in>set sample_data. \<not> loose_eq (group_value sample_host max_spec r) (Str ''C'')"
    by (simp add: sample_data_def max_spec_def group_value_def applyModifier_def get_prop_def)
  have emin: "\<forall>r\<in>set sample_data. \<not> loose_eq (group_value sample_host min_spec r) (Str ''C'')"
    by (simp add: sample_data_def min_spec_def group_value_def applyModifier_def get_prop_def)
  have vstats: "matched_values sample_host sample_data stats_spec (Str ''A'') (Str ''v'') = [10, 5]"
    by code_simp
  have vmax: "matched_values sample_host sample_data max_spec (Str ''A'') (Str ''v'') = [10, 5]"
    by code_simp
  have vmin: "matched_values sample_host sample_data min_spec (Str ''A'') (Str ''v'') = [10, 5]"
    by code_simp
  have m1: "Max (set [MIN_SAFE_INTEGER, 10, 5]) = 10" by (simp add: MIN_SAFE_INTEGER_def)
  have m2: "Min (set [MAX_SAFE_INTEGER, 10, 5]) = 5" by (simp add: MAX_SAFE_INTEGER_def)
  have none: "\<And>g name. aggFunction sample_host sample_data (g\<lparr>datasets := []\<rparr>) name = []"
    by (simp add: aggFunction_def)
  have sumA: "aggFunction sample_host sample_data (stats_spec\<lparr>datasets := [?dsum]\<rparr>) (Str ''A'')
      = [ANum (Fin 15)]"
    by code_simp
  have minA: "aggFunction sample_host sample_data (stats_spec\<lparr>datasets := [?dmin]\<rparr>) (Str ''A'')
      = [ANum (Fin 5)]"
    by code_simp
  have sumC: "aggFunction sample_host sample_data (stats_spec\<lparr>datasets := [?dsum]\<rparr>) (Str ''C'')
      = [ANum (Fin 0)]"
    by code_simp
  have minC: "aggFunction sample_host sample_data (stats_spec\<lparr>datasets := [?dmin]\<rparr>) (Str ''C'')
      = [ANum (Fin MAX_SAFE_INTEGER)]"
    by code_simp
  have a: "aggFunction sample_host sample_data stats_spec (Str ''A'') =
      [ANum (Fin 15), ANum (Fin 10), ANum (Fin 5)]"
  proof -
    from C8_max_min_sentinels [OF ds, of sample_host sample_data "Str ''A''"] pmax
    have "aggFunction sample_host sample_data stats_spec (Str ''A'') =
        aggFunction sample_host sample_data (stats_spec\<lparr>datasets := [?dsum]\<rparr>) (Str ''A'')
          @ ANum (Fin (Max (set (MIN_SAFE_INTEGER
                # matched_values sample_host sample_data stats_spec (Str ''A'') (aggField ?dmax)))))
          # aggFunction sample_host sample_data (stats_spec\<lparr>datasets := [?dmin]\<rparr>) (Str ''A'')"
      by blast
    then show ?thesis by (simp only: vstats m1 sumA minA dataset.simps append_Cons append_Nil)
  qed
  have b: "aggFunction sample_host sample_data stats_spec (Str ''C'') =
      [ANum (Fin 0), ANum (Fin MIN_SAFE_INTEGER), ANum (Fin MAX_SAFE_INTEGER)]"
  proof -
    from C8_max_min_sentinels [OF ds, of sample_host sample_data "Str ''C''"] pmax estats
    have "aggFunction sample_host sample_data stats_spec (Str ''C'') =
        aggFunction sample_host sample_data (stats_spec\<lparr>datasets := [?dsum]\<rparr>) (Str ''C'')
          @ ANum (Fin MIN_SAFE_INTEGER)
          # aggFunction sample_host sample_data (stats_spec\<lparr>datasets := [?dmin]\<rparr>) (Str ''C'')"
      by blast
    then show ?thesis by (simp only: sumC minC append_Cons append_Nil)
  qed
  have c: "aggFunction sample_host sample_data max_spec (Str ''A'') = [ANum (Fin 10)]"
  proof -
    from C8_max_min_sentinels [OF dmax, of sample_host sample_data "Str ''A''"] pmax
    have "aggFunction sample_host sample_data max_spec (Str ''A'') =
        aggFunction sample_host sample_data (max_spec\<lparr>datasets := []\<rparr>) (Str ''A'')
          @ ANum (Fin (Max (set (MIN_SAFE_INTEGER
                # matched_values sample_host sample_data max_spec (Str ''A'') (aggField ?dmax)))))
          # aggFunction sample_host sample_data (max_spec\<lparr>datasets := []\<rparr>) (Str ''A'')"
      by blast
    then show ?thesis by (simp only: vmax m1 none dataset.simps append_Nil)
  qed
  have d: "aggFunction sample_host sample_data min_spec (Str ''A'') = [ANum (Fin 5)]"
  proof -
    from C8_max_min_sentinels [OF dmin, of sample_host sample_data "Str ''A''"] pmin
    have "aggFunction sample_host sample_data min_spec (Str ''A'') =
        aggFunction sample_host sample_data (min_spec\<lparr>datasets := []\<rparr>) (Str ''A'')
          @ ANum (Fin (Min (set (MAX_SAFE_INTEGER
                # matched_values sample_host sample_data min_spec (Str ''A'') (aggField ?dmin)))))
          # aggFunction sample_host sample_data (min_spec\<lparr>datasets := []\<rparr>) (Str ''A'')"
      by blast
    then show ?thesis by (simp only: vmin m2 none dataset.simps append_Nil)
  qed
  have e: "aggFunction sample_host sample_data max_spec (Str ''C'') = [ANum (Fin MIN_SAFE_INTEGER)]"
  proof -
    from C8_max_min_sentinels [OF dmax, of sample_host sample_data "Str ''C''"] pmax emax
    have "aggFunction sample_host sample_data max_spec (Str ''C'') =
        aggFunction sample_host sample_data (max_spec\<lparr>datasets := []\<rparr>) (Str ''C'')
          @ ANum (Fin MIN_SAFE_INTEGER)
          # aggFunction sample_host sample_data (max_spec\<lparr>datasets := []\<rparr>) (Str ''C'')"
      by blast
    then show ?thesis by (simp only: none append_Nil)
  qed
  have f: "aggFunction sample_host sample_data min_spec (Str ''C'') = [ANum (Fin MAX_SAFE_INTEGER)]"
  proof -
    from C8_max_min_sentinels [OF dmin, of sample_host sample_data "Str ''C''"] pmin emin
    have "aggFunction sample_host sample_data min_spec (Str ''C'') =
        aggFunction sample_host sample_data (min_spec\<lparr>datasets := []\<rparr>) (Str ''C'')
          @ ANum (Fin MAX_SAFE_INTEGER)
          # aggFunction sample_host sample_data (min_spec\<lparr>datasets := []\<rparr>) (Str ''C'')"
      by blast
    then show ?thesis by (simp only: none append_Nil)
  qed
  show ?thesis using a b c d e f by simp
qed

section \<open>The tree builder: one level\<close>







lemma IN_iff: "v \<noteq> NumNaN \<Longrightarrow> IN names v \<longleftrightarrow> v \<in> set names"
proof -
  assume v: "v \<noteq> NumNaN"
  have "\<And>x. strict_eq x v \<longleftrightarrow> x = v"
    using v by (cases v; case_tac x; simp)
  then show ?thesis by (simp add: IN_def list_ex_iff)
qed

lemma IN_imp_mem: "IN names v \<Longrightarrow> v \<in> set names"
proof -
  assume "IN names v"
  then obtain x where "x \<in> set names" "strict_eq x v" by (auto simp: IN_def list_ex_iff)
  moreover have "x = v" using \<open>strict_eq x v\<close> by (cases x; cases v; simp)
  ultimately show ?thesis by simp
qed

lemma collect_step_set:
  "set (foldl (\<lambda>names r. if \<not> IN names (f r) then names @ [f r] else names) acc dat)
     = set acc \<union> f ` set dat"
proof (induction dat arbitrary: acc)
  case Nil
  then show ?case by simp
next
  case (Cons r rs)
  then show ?case by (auto dest: IN_imp_mem)
qed

lemma collect_step_distinct:
  "distinct acc \<Longrightarrow> NumNaN \<notin> f ` set dat \<Longrightarrow>
   distinct (foldl (\<lambda>names r. if \<not> IN names (f r) then names @ [f r] else names) acc dat)"
proof (induction dat arbitrary: acc)
  case Nil
  then show ?case by simp
next
  case (Cons r rs)
  have nn: "f r \<noteq> NumNaN" using Cons.prems(2) by auto
  have rest: "NumNaN \<notin> f ` set rs" using Cons.prems(2) by auto
  show ?case
  proof (cases "IN acc (f r)")
    case True
    then show ?thesis using Cons.IH [OF Cons.prems(1) rest] by simp
  next
    case False
    then have "f r \<notin> set acc" using IN_iff [OF nn] by simp
    then have "distinct (acc @ [f r])" using Cons.prems(1) by simp
    then show ?thesis using Cons.IH [OF _ rest] False by simp
  qed
qed

lemma collect_names_set: "set (collect_names E g dat) = group_value E g ` set dat"
  by (simp add: collect_names_def collect_step_set)

lemma collect_names_distinct:
  "NumNaN \<notin> group_value E g ` set dat \<Longrightarrow> distinct (collect_names E g dat)"
  by (simp add: collect_names_def collect_step_distinct)

lemma mset_sort_default: "mset (sort_default xs) = mset xs"
proof -
  have "mset (filter (\<lambda>x. x \<noteq> Undefined) xs) + mset (filter (\<lambda>x. x = Undefined) xs) = mset xs"
    by (induction xs) auto
  then show ?thesis by (simp add: sort_default_def)
qed

lemma default_le_text: "ToString x \<le> ToString y \<Longrightarrow> x \<noteq> Undefined \<Longrightarrow> default_le x y"
  unfolding default_le_def by blast

lemma default_le_Undefined: "default_le x Undefined"
  unfolding default_le_def by blast

lemma sorted_text_default_le: "sorted_wrt (\<lambda>x y. ToString x \<le> ToString y) ys \<Longrightarrow> \<forall>x\<in>set ys. x \<noteq> Undefined \<Longrightarrow> sorted_wrt default_le ys"
  by (erule sorted_wrt_mono_rel [rotated]) (simp add: default_le_text)

lemma sorted_all_Undefined: "\<forall>x\<in>set ys. x = Undefined \<Longrightarrow> sorted_wrt default_le ys"
  by (induction ys) (auto simp: default_le_Undefined)

lemma sorted_sort_default: "sorted_wrt default_le (sort_default xs)"
proof -
  let ?A = "sort_key ToString (filter (\<lambda>x. x \<noteq> Undefined) xs)"
  let ?B = "filter (\<lambda>x. x = Undefined) xs"
  have "sorted (map ToString ?A)" by (rule sorted_sort_key)
  then have k: "sorted_wrt (\<lambda>x y. ToString x \<le> ToString y) ?A" by (simp only: sorted_map)
  have nu: "\<forall>x\<in>set ?A. x \<noteq> Undefined" by simp
  have A: "sorted_wrt default_le ?A" using k nu by (rule sorted_text_default_le)
  have B: "sorted_wrt default_le ?B" by (rule sorted_all_Undefined) simp
  have AB: "\<forall>a\<in>set ?A. \<forall>b\<in>set ?B. default_le a b"
  proof (intro ballI)
    fix a b assume "b \<in> set ?B"
    then have "b = Undefined" by simp
    then show "default_le a b" by (simp only: default_le_Undefined)
  qed
  show ?thesis
    unfolding sort_default_def sorted_wrt_append by (intro conjI A B AB)
qed





text \<open>
  The tree built from the sample records grouped on \<open>g\<close> with \<open>sum(v)\<close>:
  node \<open>A\<close> sums to 15, node \<open>B\<close> to 3.
\<close>

lemma sample_run:
  "snd (groupBy sample_host (\<lambda>a. sum_spec) sample_data [0] [0]) =
     Inr (Nodes
       [Node (Str ''A'') Undefined [ANum (Fin 15)]
          (Leaf (Object [(''0'', [(''g'', Str ''A''), (''v'', Str ''10'')]),
                         (''1'', [(''g'', Str ''A''), (''v'', Str ''5'')])]))
          0 ''A'' [[(''g'', Str ''A''), (''v'', Str ''10'')], [(''g'', Str ''A''), (''v'', Str ''5'')]]
          [0] None,
        Node (Str ''B'') Undefined [ANum (Fin 3)]
          (Leaf (Object [(''0'', [(''g'', Str ''B''), (''v'', Str ''3'')])]))
          0 ''B'' [[(''g'', Str ''B''), (''v'', Str ''3'')]] [0] None])"
  by code_simp


text \<open>
  The names of a level are exactly the group values of the records,
  ordered by the default sort: \<open>undefined\<close> last, the others ascending by
  their string conversion. When no group value is \<open>NaN\<close> they are pairwise
  distinct.
\<close>

lemma names_sorted_by_text:
  "set (sort_default (collect_names E g dat)) = group_value E g ` set dat \<and>
   sorted_wrt default_le (sort_default (collect_names E g dat)) \<and>
   (NumNaN \<notin> group_value E g ` set dat \<longrightarrow> distinct (sort_default (collect_names E g dat)))"
proof (intro conjI impI)
  have "set (sort_default (collect_names E g dat)) = set (collect_names E g dat)"
    by (rule mset_eq_setD [OF mset_sort_default])
  then show "set (sort_default (collect_names E g dat)) = group_value E g ` set dat"
    by (simp only: collect_names_set)
  show "sorted_wrt default_le (sort_default (collect_names E g dat))"
    by (rule sorted_sort_default)
  assume "NumNaN \<notin> group_value E g ` set dat"
  then have "distinct (collect_names E g dat)" by (rule collect_names_distinct)
  then show "distinct (sort_default (collect_names E g dat))"
    by (simp only: mset_eq_imp_distinct_iff [OF mset_sort_default])
qed

text \<open>The strings b, a, a, c yield the names a, b, c.\<close>

lemma names_of_letters:
  "sort_default (collect_names sample_host plain_spec letters) = [Str ''a'', Str ''b'', Str ''c'']"
  by code_simp

text \<open>
  Claim C2 does not hold of the code. The names are sorted by
  \<open>names.sort()\<close> with no comparator, which orders numbers by their
  decimal texts: for the records with \<open>g\<close> equal to 9 and to 10 the names
  are 10, 9, and the nodes of the level come out in that order, which is
  not ascending by numeric compare.
\<close>

theorem C2_numbers_sorted_as_text:
  "sort_default (collect_names sample_host plain_spec nine_ten) = [Num 10, Num 9] \<and>
   \<not> sorted_wrt spec_value_le (sort_default (collect_names sample_host plain_spec nine_ten)) \<and>
   map node_name (result_nodes (snd (groupBy sample_host (\<lambda>a. plain_spec) nine_ten [0] [0])))
     = [Num 10, Num 9]"
  by code_simp

lemma filter_split_mset:
  "n \<notin> set ns \<Longrightarrow>
   mset (filter (\<lambda>r. h r = n) dat) + mset (filter (\<lambda>r. h r \<in> set ns) dat)
     = mset (filter (\<lambda>r. h r = n \<or> h r \<in> set ns) dat)"
  by (induction dat) auto

lemma buckets_by_equality:
  "distinct ns \<Longrightarrow>
   mset (concat (map (\<lambda>n. filter (\<lambda>r. h r = n) dat) ns))
     = mset (filter (\<lambda>r. h r \<in> set ns) dat)"
proof (induction ns)
  case Nil
  then show ?case by simp
next
  case (Cons n ns)
  then have "n \<notin> set ns" and "distinct ns" by simp_all
  then show ?case using Cons.IH filter_split_mset [of n ns h dat] by simp
qed

text \<open>
  The buckets of a level do partition the records whenever \<open>==\<close> and \<open>===\<close>
  agree on the group values that occur, as they do when all of them are
  strings: the concatenated buckets are a permutation of the records.
\<close>

lemma buckets_partition_when_equalities_agree:
  assumes agree: "\<forall>v\<in>group_value E g ` set dat. \<forall>w\<in>group_value E g ` set dat.
      loose_eq v w \<longleftrightarrow> v = w"
  shows "mset (concat (map (\<lambda>name. filter (\<lambda>r. loose_eq (group_value E g r) name) dat)
            (sort_default (collect_names E g dat)))) = mset dat"
proof -
  let ?names = "sort_default (collect_names E g dat)"
  let ?V = "group_value E g ` set dat"
  have names: "set ?names = ?V"
    by (simp only: mset_eq_setD [OF mset_sort_default] collect_names_set)
  have "NumNaN \<notin> ?V"
  proof
    assume "NumNaN \<in> ?V"
    then have "loose_eq NumNaN NumNaN" using agree by blast
    then show False by simp
  qed
  then have "distinct (collect_names E g dat)" by (rule collect_names_distinct)
  then have dist: "distinct ?names"
    by (simp only: mset_eq_imp_distinct_iff [OF mset_sort_default])
  have same: "\<And>name. name \<in> set ?names \<Longrightarrow>
      filter (\<lambda>r. loose_eq (group_value E g r) name) dat =
      filter (\<lambda>r. group_value E g r = name) dat"
  proof (rule filter_cong [OF refl])
    fix name r
    assume "name \<in> set ?names" and "r \<in> set dat"
    then have "name \<in> ?V" and "group_value E g r \<in> ?V" using names by auto
    then show "loose_eq (group_value E g r) name = (group_value E g r = name)"
      using agree by blast
  qed
  have m: "map (\<lambda>name. filter (\<lambda>r. loose_eq (group_value E g r) name) dat) ?names =
      map (\<lambda>name. filter (\<lambda>r. group_value E g r = name) dat) ?names"
    by (rule map_cong [OF refl]) (rule same)
  have "mset (concat (map (\<lambda>name. filter (\<lambda>r. loose_eq (group_value E g r) name) dat) ?names))
      = mset (filter (\<lambda>r. group_value E g r \<in> set ?names) dat)"
    unfolding m by (rule buckets_by_equality [OF dist])
  also have "filter (\<lambda>r. group_value E g r \<in> set ?names) dat = dat"
    using names by (simp add: filter_id_conv)
  finally show ?thesis .
qed

text \<open>
  Claim C1 does not hold of the code. The distinct names are found with
  \<open>===\<close> and the buckets are filled with \<open>==\<close>: for the two records with
  \<open>g\<close> equal to the number 1 and to the string \<open>1\<close> there are two nodes, and
  each holds both records (each counts 2).
\<close>

theorem C1_records_in_two_buckets:
  "snd (groupBy sample_host (\<lambda>a. plain_spec) mixed_data [0] [0]) =
     Inr (Nodes
       [Node (Num 1) Undefined [ANum (Fin 2)]
          (Leaf (Object [(''0'', [(''g'', Num 1)]), (''1'', [(''g'', Str ''1'')])]))
          0 ''1'' [[(''g'', Num 1)], [(''g'', Str ''1'')]] [0] None,
        Node (Str ''1'') Undefined [ANum (Fin 2)]
          (Leaf (Object [(''0'', [(''g'', Num 1)]), (''1'', [(''g'', Str ''1'')])]))
          0 ''1'' [[(''g'', Num 1)], [(''g'', Str ''1'')]] [0] None])"
  by code_simp

section \<open>Malformed series descriptors\<close>

lemma path_empty_bucket:
  "pathAggFunction E [] gs g name = (if gs = [] then Inr [] else Inl TypeError)"
  by (cases gs) (simp_all add: pathAggFunction_def)

lemma path_no_specs: "pathAggFunction E f [] g name = Inr []"
  by (simp add: pathAggFunction_def)

lemma names_nonempty: "dat \<noteq> [] \<Longrightarrow> sort_default (collect_names E g dat) \<noteq> []"
proof -
  assume "dat \<noteq> []"
  then obtain r where "r \<in> set dat" by (cases dat) auto
  then have "group_value E g r \<in> set (collect_names E g dat)"
    by (simp only: collect_names_set image_eqI)
  then have "group_value E g r \<in> set (sort_default (collect_names E g dat))"
    by (simp only: mset_eq_setD [OF mset_sort_default])
  then show ?thesis by auto
qed







section \<open>Re-running on the same spec objects\<close>

lemma parse_datasets_idem: "parse_datasets (fst (parse_datasets ds)) = parse_datasets ds"
  by (induction ds) (auto split: sum.splits prod.splits)

lemma parseGroupByField_datasets: "datasets (parseGroupByField g s) = datasets g"
  by (simp add: parseGroupByField_def Let_def split: option.splits)

lemma parseGroupByField_field:
  "field (parseGroupByField (g\<lparr>datasets := ds\<rparr>) s) = field (parseGroupByField g s)"
  by (simp add: parseGroupByField_def Let_def split: option.splits)

lemma parseGroupByField_fix: "\<not> reparses g \<Longrightarrow> parseGroupByField g (field g) = g"
  by (auto simp: reparses_def parseGroupByField_def split: option.splits)

lemma reparses_field: "field g = field h \<Longrightarrow> reparses g = reparses h"
  by (simp add: reparses_def)

lemma datasets_update_same: "datasets h = ds \<Longrightarrow> h\<lparr>datasets := ds\<rparr> = h"
  by (cases h) auto

text \<open>
  Parsing a settled spec a second time changes nothing and fails or
  succeeds as the first time.
\<close>

lemma parse_group_idem:
  assumes "stable_spec g"
  shows "parse_group (fst (parse_group g)) = parse_group g"
proof (cases "parse_datasets (datasets g)")
  case (Pair ds1 e)
  have idem: "parse_datasets ds1 = (ds1, e)"
    using parse_datasets_idem [of "datasets g"] Pair by simp
  show ?thesis
  proof (cases e)
    case (Some err)
    then show ?thesis using Pair idem by (simp add: parse_group_def)
  next
    case None
    let ?g1 = "parseGroupByField (g\<lparr>datasets := ds1\<rparr>) (field g)"
    have pg: "parse_group g = (?g1, None)" using Pair None by (simp add: parse_group_def)
    have d1: "datasets ?g1 = ds1" by (simp add: parseGroupByField_datasets)
    have "field ?g1 = field (parseGroupByField g (field g))"
      by (rule parseGroupByField_field)
    then have "\<not> reparses ?g1"
      using assms reparses_field unfolding stable_spec_def by blast
    then have fx: "parseGroupByField ?g1 (field ?g1) = ?g1" by (rule parseGroupByField_fix)
    have same: "?g1\<lparr>datasets := ds1\<rparr> = ?g1" using d1 by (rule datasets_update_same)
    have "parse_group ?g1 = (?g1, None)"
      unfolding parse_group_def d1 idem None by (simp only: same fx prod.case option.case)
    then show ?thesis by (simp add: pg)
  qed
qed

lemma stable_parse_group:
  assumes "stable_spec g"
  shows "stable_spec (fst (parse_group g))"
proof (cases "parse_datasets (datasets g)")
  case (Pair ds1 e)
  show ?thesis
  proof (cases e)
    case (Some err)
    then have "fst (parse_group g) = g\<lparr>datasets := ds1\<rparr>"
      using Pair by (simp add: parse_group_def)
    moreover have "field (parseGroupByField (g\<lparr>datasets := ds1\<rparr>) (field g)) =
        field (parseGroupByField g (field g))"
      by (rule parseGroupByField_field)
    ultimately show ?thesis
      using assms reparses_field [of "parseGroupByField (g\<lparr>datasets := ds1\<rparr>) (field g)"
          "parseGroupByField g (field g)"]
      by (simp add: stable_spec_def)
  next
    case None
    let ?g1 = "parseGroupByField (g\<lparr>datasets := ds1\<rparr>) (field g)"
    have pg: "fst (parse_group g) = ?g1" using Pair None by (simp add: parse_group_def)
    have "field ?g1 = field (parseGroupByField g (field g))"
      by (rule parseGroupByField_field)
    then have nr: "\<not> reparses ?g1"
      using assms reparses_field unfolding stable_spec_def by blast
    then have "parseGroupByField ?g1 (field ?g1) = ?g1" by (rule parseGroupByField_fix)
    then show ?thesis using nr by (simp add: pg stable_spec_def)
  qed
qed

lemma fst_parse_group_idem:
  "stable_spec g \<Longrightarrow> fst (parse_group (fst (parse_group g))) = fst (parse_group g)"
  by (simp add: parse_group_idem)

lemma more_parsed_refl: "more_parsed A S S"
  by (simp add: more_parsed_def)

lemma more_parsed_mono: "more_parsed A S T \<Longrightarrow> A \<subseteq> B \<Longrightarrow> more_parsed B S T"
  unfolding more_parsed_def by blast

lemma more_parsed_empty: "more_parsed {} S T \<Longrightarrow> T = S"
  unfolding more_parsed_def by auto

lemma more_parsed_stable: "more_parsed A S T \<Longrightarrow> stable_on A S \<Longrightarrow> stable_on A T"
proof -
  assume mp: "more_parsed A S T" and st: "stable_on A S"
  show "stable_on A T"
    unfolding stable_on_def
  proof
    fix r assume r: "r \<in> A"
    then have s: "stable_spec (S r)" using st by (simp add: stable_on_def)
    from mp have "T r = S r \<or> T r = fst (parse_group (S r))" by (auto simp: more_parsed_def)
    then show "stable_spec (T r)" using s stable_parse_group [OF s] by auto
  qed
qed

lemma more_parsed_trans:
  "more_parsed A S T \<Longrightarrow> more_parsed A T U \<Longrightarrow> stable_on A S \<Longrightarrow> more_parsed A S U"
proof -
  assume st: "more_parsed A S T" and tu: "more_parsed A T U" and stab: "stable_on A S"
  show "more_parsed A S U"
    unfolding more_parsed_def
  proof
    fix r
    from st have a: "T r = S r \<or> (r \<in> A \<and> T r = fst (parse_group (S r)))"
      by (simp add: more_parsed_def)
    from tu have b: "U r = T r \<or> (r \<in> A \<and> U r = fst (parse_group (T r)))"
      by (simp add: more_parsed_def)
    have c: "r \<in> A \<Longrightarrow> fst (parse_group (fst (parse_group (S r)))) = fst (parse_group (S r))"
      using stab by (simp add: stable_on_def fst_parse_group_idem)
    from a b c show "U r = S r \<or> (r \<in> A \<and> U r = fst (parse_group (S r)))" by auto
  qed
qed

lemma more_parsed_fixed:
  "more_parsed A S T \<Longrightarrow> fst (parse_group (S r)) = S r \<Longrightarrow> T r = S r"
proof -
  assume mp: "more_parsed A S T" and f: "fst (parse_group (S r)) = S r"
  from mp have "T r = S r \<or> T r = fst (parse_group (S r))" by (auto simp: more_parsed_def)
  then show "T r = S r" using f by auto
qed

lemma more_parsed_parse:
  "more_parsed A S T \<Longrightarrow> r \<in> A \<Longrightarrow> stable_spec (S r) \<Longrightarrow> parse_group (T r) = parse_group (S r)"
proof -
  assume mp: "more_parsed A S T" and r: "r \<in> A" and s: "stable_spec (S r)"
  from mp have "T r = S r \<or> T r = fst (parse_group (S r))" by (auto simp: more_parsed_def)
  then show "parse_group (T r) = parse_group (S r)" using parse_group_idem [OF s] by auto
qed


text \<open>
  The loop over the names, run from a store and from a more parsed one.
  The path of a bucket reads the specs of \<open>fullGroupBy\<close> only after the
  recursion on that bucket has parsed the remaining specs, or it throws.
\<close>

lemma bucket_loop_sim:
  assumes step: "\<And>S f. stable_on A S \<Longrightarrow> more_parsed A S (fst (rec S f))"
    and sim: "\<And>S T f. stable_on A S \<Longrightarrow> more_parsed A S T \<Longrightarrow>
        sim_result A (f \<noteq> [] \<and> full \<noteq> []) (rec S f) (rec T f)"
    and fixG: "fst (parse_group G) = G"
  shows "stable_on A S \<Longrightarrow> more_parsed A S T \<Longrightarrow> S grp = G \<Longrightarrow> T grp = G \<Longrightarrow>
     sim_result A (names \<noteq> [] \<and> full \<noteq> [])
       (bucket_loop E rec grp full dat names S) (bucket_loop E rec grp full dat names T) \<and>
     more_parsed A S (fst (bucket_loop E rec grp full dat names S))"
proof (induction names arbitrary: S T)
  case Nil
  then show ?case by (simp add: sim_result_def more_parsed_refl)
next
  case (Cons name names)
  note st = Cons.prems(1) and mp = Cons.prems(2) and sg = Cons.prems(3) and tg = Cons.prems(4)
  let ?f = "filter (\<lambda>r. loose_eq (group_value E G r) name) dat"
  define yv where "yv = aggFunction E ?f G name"
  have agg: "aggFunction E ?f G name = yv" by (simp add: yv_def)
  show ?case
  proof -
    obtain S1 r1 where rs: "rec S ?f = (S1, r1)" by (cases "rec S ?f")
    obtain T1 r2 where rt: "rec T ?f = (T1, r2)" by (cases "rec T ?f")
    have simr: "sim_result A (?f \<noteq> [] \<and> full \<noteq> []) (S1, r1) (T1, r2)"
      using sim [OF st mp, of ?f] rs rt by simp
    have r2: "r2 = r1" using simr by (simp add: sim_result_def)
    have mp1: "more_parsed A S1 T1" using simr by (simp add: sim_result_def)
    have eq1: "?f \<noteq> [] \<Longrightarrow> full \<noteq> [] \<Longrightarrow> \<not> isl r1 \<Longrightarrow> T1 = S1"
      using simr by (simp add: sim_result_def)
    have sS1: "more_parsed A S S1" using step [OF st, of ?f] rs by simp
    have st1: "stable_on A S1" using more_parsed_stable [OF sS1 st] .
    have stT: "stable_on A T" using more_parsed_stable [OF mp st] .
    have tT1: "more_parsed A T T1" using step [OF stT, of ?f] rt by simp
    have sg1: "S1 grp = G" using more_parsed_fixed [OF sS1, of grp] fixG sg by simp
    have tg1: "T1 grp = G" using more_parsed_fixed [OF tT1, of grp] fixG tg by simp
    show ?thesis
    proof (cases r1)
      case (Inl e)
      have "bucket_loop E rec grp full dat (name # names) S = (S1, Inl e)"
        and "bucket_loop E rec grp full dat (name # names) T = (T1, Inl e)"
        using agg Inl sg tg rs rt r2 by (simp_all add: Let_def)
      then show ?thesis using mp1 sS1 by (simp add: sim_result_def)
    next
      case dd: (Inr dd)
      have ok1: "\<not> isl r1" using dd by simp
      have path_eq: "pathAggFunction E ?f (map T1 full) G name =
          pathAggFunction E ?f (map S1 full) G name"
      proof (cases "?f = [] \<or> full = []")
        case True
        then show ?thesis by (auto simp: path_empty_bucket path_no_specs)
      next
        case False
        then have "T1 = S1" using eq1 ok1 by simp
        then show ?thesis by simp
      qed
      show ?thesis
      proof (cases "pathAggFunction E ?f (map S1 full) G name")
        case (Inl e)
        have "bucket_loop E rec grp full dat (name # names) S = (S1, Inl e)"
          and "bucket_loop E rec grp full dat (name # names) T = (T1, Inl e)"
          using agg Inl dd sg tg sg1 tg1 rs rt r2 path_eq by (simp_all add: Let_def)
        then show ?thesis using mp1 sS1 by (simp add: sim_result_def)
      next
        case p: (Inr p)
        have ne: "full \<noteq> [] \<Longrightarrow> ?f \<noteq> []"
        proof
          assume "full \<noteq> []" and "?f = []"
          then have "pathAggFunction E ?f (map S1 full) G name = Inl TypeError"
            by (simp add: path_empty_bucket)
          then show False using p by simp
        qed
        have eqST: "full \<noteq> [] \<Longrightarrow> T1 = S1" using eq1 ne ok1 by simp
        obtain S2 q1 where ls: "bucket_loop E rec grp full dat names S1 = (S2, q1)"
          by (cases "bucket_loop E rec grp full dat names S1")
        obtain T2 q2 where lt: "bucket_loop E rec grp full dat names T1 = (T2, q2)"
          by (cases "bucket_loop E rec grp full dat names T1")
        have ih: "sim_result A (names \<noteq> [] \<and> full \<noteq> []) (S2, q1) (T2, q2) \<and> more_parsed A S1 S2"
          using Cons.IH [OF st1 mp1 sg1 tg1] ls lt by simp
        have q2: "q2 = q1" using ih by (simp add: sim_result_def)
        have mp2: "more_parsed A S2 T2" using ih by (simp add: sim_result_def)
        have eq2: "full \<noteq> [] \<Longrightarrow> T2 = S2" using eqST ls lt by auto
        have sS2: "more_parsed A S S2"
          using more_parsed_trans [OF sS1 _ st] ih by simp
        have loopS: "bucket_loop E rec grp full dat (name # names) S =
            (S2, case q1 of Inl e \<Rightarrow> Inl e
                 | Inr r \<Rightarrow> Inr (Node name (chart G) yv dd grp p ?f full (downloadFields E) # r))"
          using agg dd p sg sg1 rs ls by (simp add: Let_def split: sum.splits)
        have loopT: "bucket_loop E rec grp full dat (name # names) T =
            (T2, case q1 of Inl e \<Rightarrow> Inl e
                 | Inr r \<Rightarrow> Inr (Node name (chart G) yv dd grp p ?f full (downloadFields E) # r))"
          using agg dd p tg tg1 rt r2 lt q2 path_eq by (simp add: Let_def split: sum.splits)
        show ?thesis
          unfolding loopS loopT using mp2 eq2 sS2 by (simp add: sim_result_def)
      qed
    qed
  qed
qed


text \<open>
  \<open>groupBy\<close> run from a store and from a more parsed one gives the same
  result, and only parses specs of its own list.
\<close>

lemma groupBy_sim:
  "stable_on (set gs) S \<Longrightarrow> more_parsed (set gs) S T \<Longrightarrow>
     sim_result (set gs) (dat \<noteq> [] \<and> full \<noteq> [])
       (groupBy E S dat gs full) (groupBy E T dat gs full) \<and>
     more_parsed (set gs) S (fst (groupBy E S dat gs full))"
proof (induction gs arbitrary: S T dat)
  case Nil
  then have "T = S" by (simp add: more_parsed_empty)
  then show ?case by (simp add: sim_result_def more_parsed_refl)
next
  case (Cons g rest)
  let ?A = "set rest"
  let ?rec = "\<lambda>S' f. groupBy E S' f rest full"
  have st: "stable_on (insert g ?A) S" and mp: "more_parsed (insert g ?A) S T"
    using Cons.prems by simp_all
  have sg: "stable_spec (S g)" using st by (simp add: stable_on_def)
  obtain g1 e where pgS: "parse_group (S g) = (g1, e)" by (cases "parse_group (S g)")
  have pgT: "parse_group (T g) = (g1, e)"
    using more_parsed_parse [OF mp _ sg] pgS by simp
  let ?S1 = "S(g := g1)"
  let ?T1 = "T(g := g1)"
  have g1: "g1 = fst (parse_group (S g))" using pgS by simp
  have fixG: "fst (parse_group g1) = g1" using fst_parse_group_idem [OF sg] g1 by simp
  have sg1: "stable_spec g1" using stable_parse_group [OF sg] g1 by simp
  have st1: "stable_on ?A ?S1" using st sg1 by (simp add: stable_on_def)
  have st1': "stable_on (insert g ?A) ?S1" using st sg1 by (simp add: stable_on_def)
  have mp1: "more_parsed ?A ?S1 ?T1" using mp by (auto simp: more_parsed_def)
  have sS1: "more_parsed (insert g ?A) S ?S1" using g1 by (simp add: more_parsed_def)
  show ?case
  proof (cases e)
    case (Some err)
    have gS: "groupBy E S dat (g # rest) full = (?S1, Inl err)"
      and gT: "groupBy E T dat (g # rest) full = (?T1, Inl err)"
      using pgS pgT Some by simp_all
    have m: "more_parsed (insert g ?A) ?S1 ?T1"
      using more_parsed_mono [OF mp1, of "insert g ?A"] by blast
    show ?thesis
      unfolding gS gT sim_result_def using m sS1 by (simp add: fun_upd_def)
  next
    case None
    let ?names = "sort_default (collect_names E g1 dat)"
    have step: "\<And>S f. stable_on ?A S \<Longrightarrow> more_parsed ?A S (fst (?rec S f))"
      using Cons.IH [OF _ more_parsed_refl] by blast
    have sim: "\<And>S T f. stable_on ?A S \<Longrightarrow> more_parsed ?A S T \<Longrightarrow>
        sim_result ?A (f \<noteq> [] \<and> full \<noteq> []) (?rec S f) (?rec T f)"
      using Cons.IH by blast
    obtain S2 q1 where ls: "bucket_loop E ?rec g full dat ?names ?S1 = (S2, q1)"
      by (cases "bucket_loop E ?rec g full dat ?names ?S1")
    obtain T2 q2 where lt: "bucket_loop E ?rec g full dat ?names ?T1 = (T2, q2)"
      by (cases "bucket_loop E ?rec g full dat ?names ?T1")
    have loop: "sim_result ?A (?names \<noteq> [] \<and> full \<noteq> []) (S2, q1) (T2, q2) \<and>
        more_parsed ?A ?S1 S2"
      using bucket_loop_sim [of ?A ?rec full g1 ?S1 ?T1 g ?names E dat, OF step sim fixG st1 mp1]
        ls lt by simp
    have q2: "q2 = q1" using loop by (simp add: sim_result_def)
    have mp2: "more_parsed (insert g ?A) S2 T2"
      using loop more_parsed_mono [of ?A S2 T2 "insert g ?A"] by (auto simp: sim_result_def)
    have eq2: "dat \<noteq> [] \<Longrightarrow> full \<noteq> [] \<Longrightarrow> \<not> isl q1 \<Longrightarrow> T2 = S2"
      using loop names_nonempty [of dat E g1] by (simp add: sim_result_def)
    have "more_parsed (insert g ?A) ?S1 S2"
      using loop more_parsed_mono [of ?A ?S1 S2 "insert g ?A"] by auto
    then have sS2: "more_parsed (insert g ?A) S S2"
      using more_parsed_trans [OF sS1 _ st] by simp
    have gS: "groupBy E S dat (g # rest) full =
        (S2, case q1 of Inl e \<Rightarrow> Inl e | Inr r \<Rightarrow> Inr (Nodes r))"
      using pgS None ls by (simp add: Let_def split: sum.splits)
    have gT: "groupBy E T dat (g # rest) full =
        (T2, case q1 of Inl e \<Rightarrow> Inl e | Inr r \<Rightarrow> Inr (Nodes r))"
      using pgT None lt q2 by (simp add: Let_def split: sum.splits)
    have ok: "\<not> isl (case q1 of Inl e \<Rightarrow> Inl e | Inr r \<Rightarrow> Inr (Nodes r)) \<Longrightarrow> \<not> isl q1"
      by (cases q1) simp_all
    show ?thesis
      unfolding gS gT sim_result_def using mp2 eq2 sS2 ok by simp
  qed
qed

text \<open>
  Claim C4, amended. If every spec of \<open>groups\<close> is settled after one parse
  (its field, once rewritten by \<open>date_trunc\<close>, is not again a \<open>date_trunc\<close>
  expression with a parenthesized group), then running \<open>groupBy\<close> again with
  the same arguments, on the spec objects as the first run left them, gives
  the same result as the first run: the same tree, or the same error.
\<close>

theorem C4_rerun_same_output:
  assumes "\<forall>r\<in>set groups. stable_spec (S r)"
  shows "snd (groupBy E (fst (groupBy E S dat groups full)) dat groups full) =
         snd (groupBy E S dat groups full)"
proof -
  have st: "stable_on (set groups) S" using assms by (simp add: stable_on_def)
  have "more_parsed (set groups) S (fst (groupBy E S dat groups full))"
    using groupBy_sim [OF st more_parsed_refl] by blast
  then have "sim_result (set groups) (dat \<noteq> [] \<and> full \<noteq> [])
      (groupBy E S dat groups full)
      (groupBy E (fst (groupBy E S dat groups full)) dat groups full)"
    using groupBy_sim [OF st] by blast
  then show ?thesis by (simp add: sim_result_def)
qed

text \<open>
  Claim C4 as stated fails: the field \<open>date_trunc(month,date_trunc(x))\<close> is
  rewritten to \<open>date_trunc(x)\<close> by the first run and to \<open>undefined\<close> by the
  second, so the first run names its node \<open>a\<close> and the second \<open>undefined\<close>.
\<close>

theorem C4_counterexample:
  "snd (groupBy sample_host (fst (groupBy sample_host (\<lambda>a. nested_spec) nested_data [0] [0]))
          nested_data [0] [0])
   \<noteq> snd (groupBy sample_host (\<lambda>a. nested_spec) nested_data [0] [0])"
  by code_simp

text \<open>
  The amended claim on two levels, the second one \<open>date_trunc(month,startdate)\<close>;
  the first run returns a tree.
\<close>

theorem C4_rerun_same_output_witness:
  "snd (groupBy sample_host (fst (groupBy sample_host two_specs dated_data [0, 1] [0, 1]))
          dated_data [0, 1] [0, 1]) =
   snd (groupBy sample_host two_specs dated_data [0, 1] [0, 1]) \<and>
   \<not> isl (snd (groupBy sample_host two_specs dated_data [0, 1] [0, 1]))"
proof -
  have h: "\<forall>r\<in>set [0, 1]. stable_spec (two_specs r)" by code_simp
  have ok: "\<not> isl (snd (groupBy sample_host two_specs dated_data [0, 1] [0, 1]))" by code_simp
  show ?thesis
    using C4_rerun_same_output [OF h, of sample_host dated_data "[0, 1]"] ok by simp
qed

end
